theory Spec2Isabelle
  imports Complex_Main "HOL-Library.Sublist" "HOL-Library.Multiset"
begin

section \<open>Python values\<close>

text \<open>
  A Python \<open>str\<close> is a sequence of Unicode code points, so it is a list of naturals
  here: \<open>len\<close>, slicing and \<open>in\<close> count code points, as Python does. ASCII text is
  written through \<open>u\<close>; every other character is written as its code point
  (10060 is the cross mark, 9989 the check mark, 39 the apostrophe, 10 the newline).
  A \<open>bytes\<close> payload is a list of byte values.
\<close>

type_synonym pystr = "nat list"
type_synonym bytes = "nat list"

definition u :: "string \<Rightarrow> pystr" where
  "u cs = map of_char cs"

text \<open>\<open>str(n)\<close> for a non-negative integer: its decimal digits.\<close>

fun str_nat :: "nat \<Rightarrow> pystr" where
  "str_nat n = (if n < 10 then [48 + n] else str_nat (n div 10) @ [48 + n mod 10])"

declare str_nat.simps [simp del]

text \<open>
  The characters \<open>str.isspace\<close> accepts; \<open>str.split()\<close> and \<open>str.strip()\<close> without
  arguments cut at exactly these.
\<close>

definition isspace :: "nat \<Rightarrow> bool" where
  "isspace c \<longleftrightarrow>
     (9 \<le> c \<and> c \<le> 13) \<or> (28 \<le> c \<and> c \<le> 32) \<or> c = 133 \<or> c = 160 \<or> c = 5760 \<or>
     (8192 \<le> c \<and> c \<le> 8202) \<or> c = 8232 \<or> c = 8233 \<or> c = 8239 \<or> c = 8287 \<or>
     c = 12288"

definition strip :: "pystr \<Rightarrow> pystr" where
  "strip s = rev (dropWhile isspace (rev (dropWhile isspace s)))"

definition endswith :: "pystr \<Rightarrow> pystr \<Rightarrow> bool" where
  "endswith s suf = (length suf \<le> length s \<and> drop (length s - length suf) s = suf)"

text \<open>\<open>os.path.basename\<close> and \<open>os.path.join\<close> of two parts, as \<open>posixpath\<close> has them.\<close>

definition basename :: "pystr \<Rightarrow> pystr" where
  "basename p = rev (takeWhile (\<lambda>c. c \<noteq> 47) (rev p))"

definition path_join :: "pystr \<Rightarrow> pystr \<Rightarrow> pystr" where
  "path_join a b =
     (if b \<noteq> [] \<and> hd b = 47 then b
      else if a = [] \<or> last a = 47 then a @ b
      else a @ [47] @ b)"

text \<open>
  Exceptions are values. \<open>HTTPException\<close> carries \<open>status_code\<close> and \<open>detail\<close>; the
  others carry the text \<open>str(e)\<close> gives.
\<close>

datatype exn =
    HTTPException nat pystr
  | OSError pystr
  | FileExistsError pystr
  | ImportError pystr
  | ValueError pystr
  | KeyError pystr
  | UnicodeEncodeError pystr
  | RuntimeError pystr

fun exn_str :: "exn \<Rightarrow> pystr" where
  "exn_str (HTTPException c d) = d"
| "exn_str (OSError m) = m"
| "exn_str (FileExistsError m) = m"
| "exn_str (ImportError m) = m"
| "exn_str (ValueError m) = m"
| "exn_str (KeyError m) = m"
| "exn_str (UnicodeEncodeError m) = m"
| "exn_str (RuntimeError m) = m"

text \<open>The dictionaries the endpoints return, as JSON values.\<close>

datatype json =
    JStr pystr
  | JList "json list"
  | JDict "(pystr \<times> json) list"

section \<open>main\_minimal.py: the HTTP endpoints\<close>

text \<open>
  The module's state is the dictionary \<open>uploaded_pdfs\<close> (pdf\_id to path); the files
  the endpoints write and remove are the \<open>disk\<close>. What the operating system decides
  is the environment of a request: the temporary directory, the names \<open>tempfile\<close>
  draws, and the exception (if any) that each step raises: \<open>await file.read()\<close>,
  \<open>os.open\<close> of a new path, \<open>tmp.write(content)\<close> with the close that ends the
  \<open>with\<close> block (\<open>write_error\<close> gives the exception and the number of bytes that
  reached the file), and \<open>os.remove\<close>.
\<close>

record app_state =
  uploaded_pdfs :: "pystr \<rightharpoonup> pystr"
  disk :: "pystr \<rightharpoonup> bytes"

record os_env =
  tempdir :: pystr
  temp_names :: "pystr list"
  read_error :: "exn option"
  open_error :: "pystr \<Rightarrow> exn option"
  write_error :: "pystr \<Rightarrow> (exn \<times> nat) option"
  remove_error :: "pystr \<Rightarrow> exn option"

record upload_file =
  filename :: pystr
  file_content :: bytes

text \<open>
  \<open>tempfile.NamedTemporaryFile(delete=False, suffix=".pdf")\<close>: the names are tried in
  turn; a name that exists is skipped (\<open>FileExistsError: continue\<close>), any other error
  of \<open>os.open\<close> is raised, and when no name is left \<open>FileExistsError\<close> is raised.
\<close>

fun mkstemp_inner :: "os_env \<Rightarrow> (pystr \<rightharpoonup> bytes) \<Rightarrow> pystr list \<Rightarrow> exn + pystr" where
  "mkstemp_inner env d [] =
     Inl (FileExistsError (u ''[Errno 17] No usable temporary file name found''))"
| "mkstemp_inner env d (n # ns) =
     (let file = path_join (tempdir env) (u ''tmp'' @ n @ u ''.pdf'') in
      if d file \<noteq> None then mkstemp_inner env d ns
      else case open_error env file of
             Some e \<Rightarrow> Inl e
           | None \<Rightarrow> Inr file)"

definition NamedTemporaryFile :: "os_env \<Rightarrow> (pystr \<rightharpoonup> bytes) \<Rightarrow> exn + pystr" where
  "NamedTemporaryFile env d = mkstemp_inner env d (temp_names env)"

definition max_size :: nat where
  "max_size = 10 * 1024 * 1024"

text \<open>
  The two handlers of \<open>upload_pdf\<close>: an \<open>HTTPException\<close> is raised again as it is,
  any other exception becomes \<open>HTTPException(500)\<close> with the text of the exception.
\<close>

definition upload_except :: "exn \<Rightarrow> exn" where
  "upload_except e =
     (case e of
        HTTPException status_code detail \<Rightarrow> HTTPException status_code detail
      | _ \<Rightarrow> HTTPException 500 ([10060] @ u '' Failed to upload: '' @ exn_str e))"

text \<open>
  \<open>upload_pdf\<close>: everything from the check of the file name to the \<open>return\<close> stands
  in one \<open>try\<close>, so reading the upload, creating the temporary file and writing it
  each end in the handlers when they raise. The file is created with \<open>delete=False\<close>,
  so a write that fails leaves it on the disk with the bytes written so far, and the map
  as it was. \<open>logger.info\<close> raises nothing.
\<close>

definition upload_pdf ::
  "os_env \<Rightarrow> upload_file \<Rightarrow> app_state \<Rightarrow> (exn + json) \<times> app_state" where
  "upload_pdf env file st =
     (if \<not> endswith (filename file) (u ''.pdf'')
      then (Inl (HTTPException 400 ([10060] @ u '' Only PDF files allowed'')), st)
      else
        case read_error env of
          Some e \<Rightarrow> (Inl (upload_except e), st)
        | None \<Rightarrow>
            let content = file_content file in
            if length content > max_size
            then (Inl (HTTPException 400
                    ([10060] @ u '' File too large (max ''
                     @ str_nat (max_size div (1024 * 1024)) @ u ''MB)'')), st)
            else
              (case NamedTemporaryFile env (disk st) of
                 Inl e \<Rightarrow> (Inl (upload_except e), st)
               | Inr pdf_path \<Rightarrow>
                   (case write_error env pdf_path of
                      Some (e, n) \<Rightarrow>
                        (Inl (upload_except e),
                         st\<lparr>disk := (disk st)(pdf_path \<mapsto> take n content)\<rparr>)
                    | None \<Rightarrow>
                        let st1 = st\<lparr>disk := (disk st)(pdf_path \<mapsto> content)\<rparr>;
                            pdf_id = basename pdf_path
                        in (Inr (JDict
                              [(u ''pdf_id'', JStr pdf_id),
                               (u ''filename'', JStr (filename file)),
                               (u ''message'',
                                JStr ([9989]
                                  @ u '' PDF uploaded successfully (minimal version)''))]),
                            st1\<lparr>uploaded_pdfs :=
                                  (uploaded_pdfs st1)(pdf_id \<mapsto> pdf_path)\<rparr>))))"

text \<open>
  \<open>query_pdf\<close>: after the membership test the body only formats strings, so its
  \<open>except Exception\<close> handler is never entered.
\<close>

definition query_mock_answer :: "pystr \<Rightarrow> pystr \<Rightarrow> pystr \<Rightarrow> pystr" where
  "query_mock_answer question pdf_id session_id =
     [10] @ u ''This is a mock response for testing purposes.'' @ [10, 10]
     @ u ''Question: '' @ question @ [10]
     @ u ''PDF: '' @ pdf_id @ [10]
     @ u ''Session: '' @ session_id @ [10, 10]
     @ u ''The full RAG pipeline with vector search, BM25, and LLM inte''
     @ u ''gration is not yet available in this minimal version. '' @ [10]
     @ u ''To enable full functionality, please install the required ML''
     @ u '' dependencies:'' @ [10] @ u ''- langchain'' @ [10] @ u ''- chromadb  ''
     @ [10] @ u ''- sentence-transformers'' @ [10] @ u ''- transformers'' @ [10]
     @ u ''- langchain_groq'' @ [10, 10]
     @ u ''For now, this endpoint confirms that:'' @ [10] @ [9989]
     @ u '' PDF upload is working'' @ [10] @ [9989]
     @ u '' File storage is working  '' @ [10] @ [9989]
     @ u '' API endpoints are accessible'' @ [10] @ [9989]
     @ u '' Session management is ready'' @ [10] @ u ''        ''"

definition query_pdf ::
  "pystr \<Rightarrow> pystr \<Rightarrow> pystr \<Rightarrow> app_state \<Rightarrow> (exn + json) \<times> app_state" where
  "query_pdf pdf_id question session_id st =
     (case uploaded_pdfs st pdf_id of
        None \<Rightarrow>
          (Inl (HTTPException 404
             ([10060] @ u '' pdf_id '' @ [39] @ pdf_id @ [39]
              @ u '' not found. Please upload the PDF first!'')), st)
      | Some pdf_path \<Rightarrow>
          (Inr (JDict
             [(u ''answer'', JStr (strip (query_mock_answer question pdf_id session_id))),
              (u ''metadata'',
               JList [JDict [(u ''content'', JStr (u ''Mock response'')),
                             (u ''pdf_name'', JStr pdf_id),
                             (u ''page'', JStr (u ''N/A''))]]),
              (u ''session_id'', JStr session_id)]), st))"

definition os_remove :: "os_env \<Rightarrow> pystr \<Rightarrow> (pystr \<rightharpoonup> bytes) \<Rightarrow> exn + (pystr \<rightharpoonup> bytes)" where
  "os_remove env path d =
     (case remove_error env path of
        Some e \<Rightarrow> Inl e
      | None \<Rightarrow> Inr (d(path := None)))"

definition delete_pdf :: "os_env \<Rightarrow> pystr \<Rightarrow> app_state \<Rightarrow> (exn + json) \<times> app_state" where
  "delete_pdf env pdf_id st =
     (case uploaded_pdfs st pdf_id of
        None \<Rightarrow>
          (Inl (HTTPException 404
             ([10060] @ u '' pdf_id '' @ [39] @ pdf_id @ [39] @ u '' not found'')), st)
      | Some pdf_path \<Rightarrow>
          let st1 = st\<lparr>uploaded_pdfs := (uploaded_pdfs st)(pdf_id := None)\<rparr> in
          (case (if disk st1 pdf_path \<noteq> None then os_remove env pdf_path (disk st1)
                 else Inr (disk st1)) of
             Inl e \<Rightarrow>
               (Inl (HTTPException 500 ([10060] @ u '' Failed to delete: '' @ exn_str e)), st1)
           | Inr d' \<Rightarrow>
               (Inr (JDict [(u ''message'', JStr ([9989] @ u '' Deleted '' @ pdf_id)),
                            (u ''pdf_id'', JStr pdf_id)]),
                st1\<lparr>disk := d'\<rparr>)))"

section \<open>crew\_pipeline\_simple.py: keyword search\<close>

text \<open>
  \<open>str.split()\<close> without arguments: the maximal runs of non-whitespace characters,
  in order. The scan keeps the word read so far in \<open>cur\<close>.
\<close>

fun split_from :: "pystr \<Rightarrow> pystr \<Rightarrow> pystr list" where
  "split_from cur [] = (if cur = [] then [] else [cur])"
| "split_from cur (c # cs) =
     (if isspace c then (if cur = [] then split_from [] cs else cur # split_from [] cs)
      else split_from (cur @ [c]) cs)"

definition split :: "pystr \<Rightarrow> pystr list" where
  "split s = split_from [] s"

text \<open>\<open>word in text\<close> on strings: \<open>word\<close> occurs in \<open>text\<close> as a contiguous substring.\<close>

fun str_contains :: "pystr \<Rightarrow> pystr \<Rightarrow> bool" where
  "str_contains [] word = (word = [])"
| "str_contains (c # cs) word = (prefix word (c # cs) \<or> str_contains cs word)"

text \<open>
  \<open>str.lower()\<close> follows the Unicode case tables, which are not part of the
  repository: the functions below take it as the parameter \<open>lower\<close>, and
  \<open>ascii_lower\<close> is what it does on ASCII text.
\<close>

definition ascii_lower :: "pystr \<Rightarrow> pystr" where
  "ascii_lower s = map (\<lambda>c. if 65 \<le> c \<and> c \<le> 90 then c + 32 else c) s"

text \<open>\<open>sum(1 for word in query_words if word in text_lower)\<close>\<close>

definition score :: "pystr list \<Rightarrow> pystr \<Rightarrow> nat" where
  "score query_words text_lower = length (filter (\<lambda>word. str_contains text_lower word) query_words)"

text \<open>The loop over \<open>texts\<close>, which appends \<open>(score, text)\<close> when the score is positive.\<close>

fun scored_texts :: "(pystr \<Rightarrow> pystr) \<Rightarrow> pystr list \<Rightarrow> pystr list \<Rightarrow> (nat \<times> pystr) list" where
  "scored_texts lower query_words [] = []"
| "scored_texts lower query_words (text # texts) =
     (let text_lower = lower text;
          sc = score query_words text_lower
      in if sc > 0 then (sc, text) # scored_texts lower query_words texts
         else scored_texts lower query_words texts)"

text \<open>
  \<open>list.sort(key=..., reverse=True)\<close>: a stable sort into descending key order;
  elements with equal keys keep their original order.
\<close>

definition sort_reverse :: "('a \<Rightarrow> nat) \<Rightarrow> 'a list \<Rightarrow> 'a list" where
  "sort_reverse key xs = rev (sort_key key (rev xs))"

text \<open>The slice \<open>xs[:k]\<close>; a negative \<open>k\<close> counts from the end.\<close>

definition slice_to :: "'a list \<Rightarrow> int \<Rightarrow> 'a list" where
  "slice_to xs k = (if 0 \<le> k then take (nat k) xs else take (nat (int (length xs) + k)) xs)"

definition simple_text_search ::
  "(pystr \<Rightarrow> pystr) \<Rightarrow> pystr \<Rightarrow> pystr list \<Rightarrow> int \<Rightarrow> pystr list" where
  "simple_text_search lower query texts k =
     (let query_words = split (lower query);
          scored = sort_reverse fst (scored_texts lower query_words texts)
      in map snd (slice_to scored k))"

text \<open>
  The spec's reading of the score, for comparison with \<open>score\<close>: "string splitting and
  substring counting", the occurrences of every query word counted in the text.
  \<open>str_count text word\<close> is \<open>text.count(word)\<close>, the number of non-overlapping
  occurrences.
\<close>

function str_count :: "pystr \<Rightarrow> pystr \<Rightarrow> nat" where
  "str_count text word =
     (if word = [] then length text + 1
      else if text = [] then 0
      else if prefix word text then 1 + str_count (drop (length word) text) word
      else str_count (tl text) word)"
  by pat_completeness auto
termination
  by (relation "measure (\<lambda>(text, word). length text)") auto

declare str_count.simps [simp del]

definition spec_occurrence_score :: "pystr list \<Rightarrow> pystr \<Rightarrow> nat" where
  "spec_occurrence_score query_words text_lower =
     sum_list (map (\<lambda>word. str_count text_lower word) query_words)"

section \<open>crew\_pipeline\_simple.py: the caches\<close>

text \<open>
  Modelled from the spec: \<open>cachetools.LFUCache\<close>, the library class behind
  \<open>pdf_cache\<close> and \<open>query_cache\<close>, is not under src/. The spec describes it as "a
  fixed-capacity cache that evicts the least-frequently-accessed entry when full", its
  entries "evicted by least-frequency-of-use once capacity is exceeded". The cache is
  its capacity and its entries, each a key, a value and the number of times the key was
  used (stored or read), in the order the keys were first stored. \<open>key in cache\<close> does
  not count as a use. Every value has size 1, so a cache of capacity 0 refuses every
  value.
\<close>

record ('k, 'v) lfu_cache =
  lfu_maxsize :: nat
  lfu_items :: "('k \<times> 'v \<times> nat) list"

definition LFUCache :: "nat \<Rightarrow> ('k, 'v) lfu_cache" where
  "LFUCache n = \<lparr>lfu_maxsize = n, lfu_items = []\<rparr>"

definition cache_contains :: "('k, 'v) lfu_cache \<Rightarrow> 'k \<Rightarrow> bool" where
  "cache_contains c k = (map_of (lfu_items c) k \<noteq> None)"

fun bump :: "'k \<Rightarrow> ('k \<times> 'v \<times> nat) list \<Rightarrow> ('k \<times> 'v \<times> nat) list" where
  "bump k [] = []"
| "bump k ((k', v, n) # es) = (if k' = k then (k', v, Suc n) # es else (k', v, n) # bump k es)"

fun store :: "'k \<Rightarrow> 'v \<Rightarrow> ('k \<times> 'v \<times> nat) list \<Rightarrow> ('k \<times> 'v \<times> nat) list" where
  "store k v [] = [(k, v, 1)]"
| "store k v ((k', v', n) # es) =
     (if k' = k then (k', v, Suc n) # es else (k', v', n) # store k v es)"

definition cache_getitem ::
  "('k, 'v) lfu_cache \<Rightarrow> 'k \<Rightarrow> exn + ('v \<times> ('k, 'v) lfu_cache)" where
  "cache_getitem c k =
     (case map_of (lfu_items c) k of
        None \<Rightarrow> Inl (KeyError (u ''key''))
      | Some (v, n) \<Rightarrow> Inr (v, c\<lparr>lfu_items := bump k (lfu_items c)\<rparr>))"

text \<open>The entry used least often; among equals, the one stored first.\<close>

fun least_used :: "('k \<times> 'v \<times> nat) list \<Rightarrow> ('k \<times> 'v \<times> nat) option" where
  "least_used [] = None"
| "least_used (e # es) =
     (case least_used es of
        None \<Rightarrow> Some e
      | Some m \<Rightarrow> if snd (snd e) \<le> snd (snd m) then Some e else Some m)"

definition popitem ::
  "('k, 'v) lfu_cache \<Rightarrow> exn + (('k \<times> 'v) \<times> ('k, 'v) lfu_cache)" where
  "popitem c =
     (case least_used (lfu_items c) of
        None \<Rightarrow> Inl (KeyError (u ''LFUCache is empty''))
      | Some (k, v, n) \<Rightarrow>
          Inr ((k, v), c\<lparr>lfu_items := filter (\<lambda>e. fst e \<noteq> k) (lfu_items c)\<rparr>))"

lemma least_used_mem: "least_used es = Some m \<Longrightarrow> m \<in> set es"
  by (induction es arbitrary: m) (auto split: option.splits if_splits)

lemma popitem_shrinks:
  assumes "popitem c = Inr (kv, c')"
  shows "length (lfu_items c') < length (lfu_items c)"
proof -
  from assms obtain k v n where m: "least_used (lfu_items c) = Some (k, v, n)"
    and c': "c' = c\<lparr>lfu_items := filter (\<lambda>e. fst e \<noteq> k) (lfu_items c)\<rparr>"
    by (auto simp: popitem_def split: option.splits)
  from m have "(k, v, n) \<in> set (lfu_items c)" by (rule least_used_mem)
  then have "length (filter (\<lambda>e. fst e \<noteq> k) (lfu_items c)) < length (lfu_items c)"
    by (intro length_filter_less[where x = "(k, v, n)"]) auto
  with c' show ?thesis by simp
qed

text \<open>\<open>while self.currsize + size > maxsize: self.popitem()\<close>, with \<open>size = 1\<close>.\<close>

function make_room :: "('k, 'v) lfu_cache \<Rightarrow> exn + ('k, 'v) lfu_cache" where
  "make_room c =
     (if length (lfu_items c) + 1 > lfu_maxsize c
      then (case popitem c of
              Inl e \<Rightarrow> Inl e
            | Inr (kv, c') \<Rightarrow> make_room c')
      else Inr c)"
  by pat_completeness auto
termination
  by (relation "measure (\<lambda>c. length (lfu_items c))") (auto simp: popitem_shrinks)

declare make_room.simps [simp del]

definition cache_setitem ::
  "('k, 'v) lfu_cache \<Rightarrow> 'k \<Rightarrow> 'v \<Rightarrow> exn + ('k, 'v) lfu_cache" where
  "cache_setitem c k v =
     (if 1 > lfu_maxsize c then Inl (ValueError (u ''value too large''))
      else case (if \<not> cache_contains c k then make_room c else Inr c) of
             Inl e \<Rightarrow> Inl e
           | Inr c1 \<Rightarrow> Inr (c1\<lparr>lfu_items := store k v (lfu_items c1)\<rparr>))"

section \<open>crew\_pipeline\_simple.py: session memory\<close>

record message =
  role :: pystr
  content :: pystr

record memory =
  history :: "message list"
  messages :: "message list"

record index_data =
  idx_texts :: "pystr list"
  idx_pdf_path :: pystr

record metadata =
  md_content :: pystr
  md_pdf_name :: pystr
  md_page :: pystr
  md_score :: real

record result =
  answer :: pystr
  metadata :: "metadata list"

text \<open>
  The module's state: the two caches and \<open>memory_manager.sessions\<close>. The answer cache
  is keyed by the tuple \<open>(user_query, pdf_path, session_id)\<close>.
\<close>

record pipeline_state =
  pdf_cache :: "(pystr, index_data) lfu_cache"
  query_cache :: "(pystr \<times> pystr \<times> pystr, result) lfu_cache"
  sessions :: "pystr \<rightharpoonup> memory"

definition initial_state :: pipeline_state where
  "initial_state = \<lparr>pdf_cache = LFUCache 10, query_cache = LFUCache 100, sessions = Map.empty\<rparr>"

definition empty_memory :: memory where
  "empty_memory = \<lparr>history = [], messages = []\<rparr>"

definition get_memory :: "pystr \<Rightarrow> pipeline_state \<Rightarrow> memory \<times> pipeline_state" where
  "get_memory session_id st =
     (case sessions st session_id of
        None \<Rightarrow> (empty_memory, st\<lparr>sessions := (sessions st)(session_id \<mapsto> empty_memory)\<rparr>)
      | Some m \<Rightarrow> (m, st))"

definition reset_memory :: "pystr \<Rightarrow> pipeline_state \<Rightarrow> pipeline_state" where
  "reset_memory session_id st =
     (if sessions st session_id \<noteq> None
      then st\<lparr>sessions := (sessions st)(session_id \<mapsto> empty_memory)\<rparr>
      else st)"

text \<open>
  \<open>memory["history"].append(msg)\<close>, where \<open>memory\<close> is the dictionary \<open>get_memory\<close>
  returned for the session: it is the object stored in \<open>sessions\<close>, so the stored
  history grows with it.
\<close>

definition history_append ::
  "pystr \<Rightarrow> message \<Rightarrow> memory \<times> pipeline_state \<Rightarrow> memory \<times> pipeline_state" where
  "history_append session_id msg ms =
     (let mem = (fst ms)\<lparr>history := history (fst ms) @ [msg]\<rparr>
      in (mem, (snd ms)\<lparr>sessions := (sessions (snd ms))(session_id \<mapsto> mem)\<rparr>))"

section \<open>crew\_pipeline\_simple.py: the pipeline\<close>

text \<open>
  What the pipeline reads from outside: the API key of the environment, whether
  \<open>pypdf\<close> and \<open>langchain_groq\<close> can be imported, which paths exist, what the PDF
  reader gives for a path (the text of each page, \<open>None\<close> where \<open>extract_text()\<close>
  gives none, or the exception it raises), whether constructing \<open>ChatGroq\<close> raises,
  what \<open>llm.invoke(prompt).content\<close> gives or raises, \<open>str.lower\<close>, and the standard
  output: \<open>print_error\<close> gives the exception \<open>print\<close> raises for a message that
  stdout cannot encode (\<open>UnicodeEncodeError\<close>, as for a lone surrogate), if any.

  \<open>print_error\<close> stands wherever the module prints a path or the text of an exception
  as it is: in \<open>load_pdf_chunks\<close>, in \<open>get_or_create_indexes\<close> and in the handler of
  the pipeline (lines 61, 68, 75, 78 and 210). The other messages are fixed text, a
  number, or the \<open>repr\<close> of the key tuple (lines 48, 51, 197 and 208); they are taken
  to be printed. \<open>reset_memory\<close> prints after its assignment: the state it leaves is
  the same whether or not that \<open>print\<close> raises.
\<close>

record pipeline_env =
  groq_api_key :: "pystr option"
  pypdf_importable :: bool
  path_exists :: "pystr \<Rightarrow> bool"
  pdf_pages :: "pystr \<Rightarrow> exn + pystr option list"
  langchain_groq_importable :: bool
  chatgroq_error :: "exn option"
  llm_invoke :: "pystr \<Rightarrow> exn + pystr"
  str_lower :: "pystr \<Rightarrow> pystr"
  print_error :: "pystr \<Rightarrow> exn option"

text \<open>
  \<open>load_pdf_chunks\<close>: the import of \<open>pypdf\<close> is the first statement of the body and
  stands outside the \<open>try\<close>; so does the \<open>print\<close> for a missing file, and the \<open>print\<close>
  of the handler is not protected either.
\<close>

definition load_pdf_chunks :: "pipeline_env \<Rightarrow> pystr \<Rightarrow> exn + pystr list" where
  "load_pdf_chunks env pdf_path =
     (if \<not> pypdf_importable env
      then Inl (ImportError (u ''No module named '' @ [39] @ u ''pypdf'' @ [39]))
      else if \<not> path_exists env pdf_path
      then (case print_error env (u ''File not found: '' @ pdf_path) of
              Some e \<Rightarrow> Inl e
            | None \<Rightarrow> Inr [])
      else (case pdf_pages env pdf_path of
              Inl e \<Rightarrow>
                (case print_error env (u ''Error reading PDF: '' @ exn_str e) of
                   Some e' \<Rightarrow> Inl e'
                 | None \<Rightarrow> Inr [])
            | Inr pages \<Rightarrow> Inr (map (\<lambda>t. case t of None \<Rightarrow> [] | Some s \<Rightarrow> s) pages)))"

text \<open>
  \<open>get_or_create_indexes\<close>: every chunk is a \<open>str\<close>, so the \<open>isinstance\<close> filter
  keeps all of them. Each branch prints the path first.
\<close>

definition get_or_create_indexes ::
  "pipeline_env \<Rightarrow> pystr \<Rightarrow> pipeline_state \<Rightarrow> (exn + index_data) \<times> pipeline_state" where
  "get_or_create_indexes env pdf_path st =
     (if cache_contains (pdf_cache st) pdf_path
      then (case print_error env (u ''Using cached indexes for '' @ pdf_path) of
              Some e \<Rightarrow> (Inl e, st)
            | None \<Rightarrow>
                (case cache_getitem (pdf_cache st) pdf_path of
                   Inl e \<Rightarrow> (Inl e, st)
                 | Inr (v, c) \<Rightarrow> (Inr v, st\<lparr>pdf_cache := c\<rparr>)))
      else (case print_error env (u ''Creating simple text index for '' @ pdf_path) of
              Some e \<Rightarrow> (Inl e, st)
            | None \<Rightarrow>
                (case load_pdf_chunks env pdf_path of
                   Inl e \<Rightarrow> (Inl e, st)
                 | Inr chunks \<Rightarrow>
                     let texts = chunks;
                         index_data = \<lparr>idx_texts = texts, idx_pdf_path = pdf_path\<rparr>
                     in (case cache_setitem (pdf_cache st) pdf_path index_data of
                           Inl e \<Rightarrow> (Inl e, st)
                         | Inr c \<Rightarrow> (Inr index_data, st\<lparr>pdf_cache := c\<rparr>)))))"

fun join :: "pystr \<Rightarrow> pystr list \<Rightarrow> pystr" where
  "join sep [] = []"
| "join sep [x] = x"
| "join sep (x # y # ys) = x @ sep @ join sep (y # ys)"

text \<open>
  \<open>extract_relevant_clause\<close>: \<open>simple_text_search\<close> raises nothing on a list of
  strings, so the \<open>except\<close> around it is never entered.
\<close>

definition extract_relevant_clause ::
  "pipeline_env \<Rightarrow> pystr \<Rightarrow> pystr \<Rightarrow> int \<Rightarrow> pipeline_state
     \<Rightarrow> (exn + pystr \<times> metadata list) \<times> pipeline_state" where
  "extract_relevant_clause env pdf_path user_query k st =
     (case get_or_create_indexes env pdf_path st of
        (Inl e, st1) \<Rightarrow> (Inl e, st1)
      | (Inr indexes, st1) \<Rightarrow>
          let texts = idx_texts indexes;
              relevant_passages = simple_text_search (str_lower env) user_query texts k
          in if relevant_passages = [] then (Inr ([], []), st1)
             else
               let metadata_info =
                     map (\<lambda>(i, passage).
                            \<lparr>md_content = passage,
                             md_pdf_name = basename pdf_path,
                             md_page = u ''Page '' @ str_nat (i + 1),
                             md_score = 1\<rparr>)
                         (enumerate 0 relevant_passages)
               in (Inr (join [10, 10] relevant_passages, metadata_info), st1))"

definition format_history :: "message list \<Rightarrow> pystr" where
  "format_history chat_history =
     (if chat_history = [] then []
      else foldl (\<lambda>history_text msg. history_text @ role msg @ u '': '' @ content msg @ [10])
                 ([10, 10] @ u ''Conversation History:'' @ [10]) chat_history)"

definition prompt_template :: "pystr \<Rightarrow> pystr \<Rightarrow> pystr \<Rightarrow> pystr \<Rightarrow> pystr" where
  "prompt_template history_text user_query context metadata_text =
     [10] @ u ''You are an intelligent assistant working for the Department ''
     @ u ''of Higher Education (MoE).'' @ [10]
     @ u ''Your role is to help officials quickly retrieve, compare, an''
     @ u ''d interpret data, rules,'' @ [10]
     @ u ''schemes, projects, and policies from multiple authentic docu''
     @ u ''ments.'' @ [10, 10] @ u ''Objectives:'' @ [10]
     @ u ''1. Find all relevant information from provided contexts '' @ [8212]
     @ u '' even if scattered or overlapping.'' @ [10]
     @ u ''2. Combine related clauses logically, avoid repetition, and ''
     @ u ''highlight any conflicting info.'' @ [10]
     @ u ''3. Maintain traceability by citing document names and page n''
     @ u ''umbers.'' @ [10]
     @ u ''4. Always remain factual, concise, and policy-accurate.'' @ [10]
     @ u ''5. If data is insufficient or unclear, clearly state that in''
     @ u ''stead of guessing.'' @ [10]
     @ u ''6. Use conversation history to provide contextual answers an''
     @ u ''d maintain coherent dialogue.'' @ [10]
     @ history_text
     @ [10, 10] @ u ''User Query:'' @ [10]
     @ user_query
     @ [10, 10] @ u ''Retrieved Contexts:'' @ [10]
     @ context
     @ [10, 10] @ u ''Source Metadata:'' @ [10]
     @ metadata_text
     @ [10]"

definition mock_answer :: "pystr \<Rightarrow> pystr \<Rightarrow> pystr" where
  "mock_answer user_query context =
     [10] @ u ''**Mock Response (Groq API not configured)**'' @ [10, 10]
     @ u ''Question: '' @ user_query
     @ [10, 10] @ u ''Retrieved Context:'' @ [10]
     @ take 500 context
     @ u ''...'' @ [10, 10]
     @ u ''**Note**: This is a simplified response. To enable full AI c''
     @ u ''apabilities:'' @ [10] @ u ''1. Set GROQ_API_KEY environment variable''
     @ [10] @ u ''2. Install langchain_groq: '' @ [96]
     @ u ''pip install langchain_groq'' @ [96, 10]
     @ u ''3. Install other ML dependencies for vector search'' @ [10, 10]
     @ u ''Current capabilities:'' @ [10] @ [9989] @ u '' PDF upload and storage''
     @ [10] @ [9989] @ u '' Basic text search'' @ [10] @ [9989]
     @ u '' Session management'' @ [10] @ [9989] @ u '' File caching'' @ [10]
     @ [9888, 65039] @ u '' AI-powered responses (requires API key)'' @ [10]
     @ [9888, 65039] @ u '' Vector embeddings (requires ML libraries)'' @ [10]"

text \<open>
  The \<open>try\<close> block of the pipeline. It ends in one of three ways: the answer of the
  language model (\<open>Inr\<close>); an exception before the user message was stored (the import
  or the constructor failed); an exception after it (the call failed). The handlers
  only print, so an exception leaves the state as the block left it.
\<close>

definition groq_attempt ::
  "pipeline_env \<Rightarrow> pystr \<Rightarrow> pystr \<Rightarrow> pystr \<Rightarrow> metadata list \<Rightarrow> pystr \<Rightarrow> pystr
     \<Rightarrow> memory \<times> pipeline_state \<Rightarrow> (exn + result) \<times> memory \<times> pipeline_state" where
  "groq_attempt env user_query context metadata_text metadata_info history_text session_id ms =
     (if \<not> langchain_groq_importable env
      then (Inl (ImportError (u ''No module named '' @ [39] @ u ''langchain_groq'' @ [39])), ms)
      else case chatgroq_error env of
             Some e \<Rightarrow> (Inl e, ms)
           | None \<Rightarrow>
               let prompt = prompt_template history_text user_query context metadata_text;
                   ms1 = history_append session_id
                           \<lparr>role = u ''User'', content = user_query\<rparr> ms
               in (case llm_invoke env prompt of
                     Inl e \<Rightarrow> (Inl e, ms1)
                   | Inr llm_response_content \<Rightarrow>
                       let ms2 = history_append session_id
                                   \<lparr>role = u ''Assistant'', content = llm_response_content\<rparr> ms1
                       in (Inr \<lparr>answer = llm_response_content, metadata = metadata_info\<rparr>,
                           ms2)))"

text \<open>The fallback below the \<open>try\<close>: the mock answer, stored in the history.\<close>

definition mock_response ::
  "pystr \<Rightarrow> pystr \<Rightarrow> metadata list \<Rightarrow> pystr \<Rightarrow> memory \<times> pipeline_state
     \<Rightarrow> (exn + result) \<times> pipeline_state" where
  "mock_response user_query context metadata_info session_id ms =
     (let answer_text = mock_answer user_query context;
          ms1 = history_append session_id \<lparr>role = u ''User'', content = user_query\<rparr> ms;
          ms2 = history_append session_id \<lparr>role = u ''Assistant'', content = answer_text\<rparr> ms1
      in (Inr \<lparr>answer = answer_text, metadata = metadata_info\<rparr>, snd ms2))"

text \<open>
  Lines 156 to 242: with an API key the \<open>try\<close> block runs, and when it raises the
  fallback follows from the state the block left; without a key the fallback runs at
  once. \<open>if groq_api_key:\<close> holds for a key that is set and not empty. The handler
  of \<open>ImportError\<close> prints a fixed text; the handler of every other exception prints
  the text of the exception, and when that \<open>print\<close> raises, the pipeline raises.
\<close>

definition generate_answer ::
  "pipeline_env \<Rightarrow> pystr \<Rightarrow> pystr \<Rightarrow> pystr \<Rightarrow> metadata list \<Rightarrow> pystr \<Rightarrow> pystr
     \<Rightarrow> memory \<times> pipeline_state \<Rightarrow> (exn + result) \<times> pipeline_state" where
  "generate_answer env user_query context metadata_text metadata_info history_text session_id ms =
     (if groq_api_key env \<noteq> None \<and> groq_api_key env \<noteq> Some []
      then (case groq_attempt env user_query context metadata_text metadata_info
                   history_text session_id ms of
              (Inr res, ms1) \<Rightarrow> (Inr res, snd ms1)
            | (Inl (ImportError m), ms1) \<Rightarrow>
                mock_response user_query context metadata_info session_id ms1
            | (Inl e, ms1) \<Rightarrow>
                (case print_error env
                        (u ''Groq API error: '' @ exn_str e @ u '', using mock response'') of
                   Some e' \<Rightarrow> (Inl e', snd ms1)
                 | None \<Rightarrow> mock_response user_query context metadata_info session_id ms1))
      else mock_response user_query context metadata_info session_id ms)"

text \<open>The function under the decorator.\<close>

definition run_full_pipeline_func ::
  "pipeline_env \<Rightarrow> pystr \<Rightarrow> pystr \<Rightarrow> pystr \<Rightarrow> pipeline_state
     \<Rightarrow> (exn + result) \<times> pipeline_state" where
  "run_full_pipeline_func env user_query pdf_path session_id st =
     (case extract_relevant_clause env pdf_path user_query 10 st of
        (Inl e, st1) \<Rightarrow> (Inl e, st1)
      | (Inr (context, metadata_info), st1) \<Rightarrow>
          let joined = join [10]
                 (map (\<lambda>m. u ''- Source: '' @ md_pdf_name m @ u '', Page: '' @ md_page m)
                      metadata_info);
              metadata_text = (if joined = [] then u ''No metadata available.'' else joined);
              ms = get_memory session_id st1;
              chat_history = history (fst ms);
              history_text = format_history chat_history
          in generate_answer env user_query context metadata_text metadata_info
               history_text session_id ms)"

text \<open>The decorator \<open>cache_query\<close> and the decorated \<open>run_full_pipeline\<close>.\<close>

definition cache_query ::
  "(pystr \<Rightarrow> pystr \<Rightarrow> pystr \<Rightarrow> pipeline_state \<Rightarrow> (exn + result) \<times> pipeline_state)
     \<Rightarrow> pystr \<Rightarrow> pystr \<Rightarrow> pystr \<Rightarrow> pipeline_state \<Rightarrow> (exn + result) \<times> pipeline_state" where
  "cache_query func user_query pdf_path session_id st =
     (let cache_key = (user_query, pdf_path, session_id) in
      if cache_contains (query_cache st) cache_key
      then (case cache_getitem (query_cache st) cache_key of
              Inl e \<Rightarrow> (Inl e, st)
            | Inr (v, c) \<Rightarrow> (Inr v, st\<lparr>query_cache := c\<rparr>))
      else (case func user_query pdf_path session_id st of
              (Inl e, st1) \<Rightarrow> (Inl e, st1)
            | (Inr res, st1) \<Rightarrow>
                (case cache_setitem (query_cache st1) cache_key res of
                   Inl e \<Rightarrow> (Inl e, st1)
                 | Inr c \<Rightarrow> (Inr res, st1\<lparr>query_cache := c\<rparr>))))"

definition run_full_pipeline ::
  "pipeline_env \<Rightarrow> pystr \<Rightarrow> pystr \<Rightarrow> pystr \<Rightarrow> pipeline_state
     \<Rightarrow> (exn + result) \<times> pipeline_state" where
  "run_full_pipeline env = cache_query (run_full_pipeline_func env)"

section \<open>Invariants and sample inputs\<close>

text \<open>
  The names \<open>tempfile\<close> draws are made of letters, digits and the underscore: none
  holds a slash.
\<close>

definition temp_names_ok :: "os_env \<Rightarrow> bool" where
  "temp_names_ok env \<longleftrightarrow> (\<forall>n \<in> set (temp_names env). 47 \<notin> set n)"

text \<open>
  What the endpoints keep true of \<open>uploaded_pdfs\<close>: every path it holds is a file on
  the disk, in the temporary directory, and its key is the base name of that path.
\<close>

definition uploads_wf :: "os_env \<Rightarrow> app_state \<Rightarrow> bool" where
  "uploads_wf env st \<longleftrightarrow>
     (\<forall>pdf_id pdf_path. uploaded_pdfs st pdf_id = Some pdf_path \<longrightarrow>
        disk st pdf_path \<noteq> None \<and> 47 \<notin> set pdf_id \<and>
        pdf_path = path_join (tempdir env) pdf_id)"

text \<open>
  A state with one uploaded PDF; an environment where every step succeeds, one whose
  file system is read-only, one whose disk is full after two bytes, and one where
  reading the upload fails; and two files to try.
\<close>

definition st_one :: app_state where
  "st_one = \<lparr>uploaded_pdfs = [u ''tmpab.pdf'' \<mapsto> u ''/tmp/tmpab.pdf''],
             disk = [u ''/tmp/tmpab.pdf'' \<mapsto> [37, 80, 68, 70]]\<rparr>"

definition env_ok :: os_env where
  "env_ok = \<lparr>tempdir = u ''/tmp'', temp_names = [u ''ab'', u ''cd''],
             read_error = None, open_error = (\<lambda>p. None), write_error = (\<lambda>p. None),
             remove_error = (\<lambda>p. None)\<rparr>"

definition env_readonly :: os_env where
  "env_readonly = env_ok
     \<lparr>open_error :=
        (\<lambda>p. Some (OSError (u ''[Errno 30] Read-only file system: '' @ [39] @ p @ [39]))),
      remove_error :=
        (\<lambda>p. Some (OSError (u ''[Errno 30] Read-only file system: '' @ [39] @ p @ [39])))\<rparr>"

definition env_disk_full :: os_env where
  "env_disk_full = env_ok
     \<lparr>write_error := (\<lambda>p. Some (OSError (u ''[Errno 28] No space left on device''), 2))\<rparr>"

definition env_read_fails :: os_env where
  "env_read_fails = env_ok\<lparr>read_error := Some (RuntimeError (u ''client disconnected''))\<rparr>"

definition file_ok :: upload_file where
  "file_ok = \<lparr>filename = u ''report.pdf'', file_content = [37, 80, 68, 70, 45]\<rparr>"

definition file_txt :: upload_file where
  "file_txt = \<lparr>filename = u ''notes.txt'', file_content = [104, 105]\<rparr>"

text \<open>Texts and a query for the keyword search.\<close>

definition sample_texts :: "pystr list" where
  "sample_texts = [u ''no match'', u ''the pdf file'', u ''Data in PDF'', [], u ''pdf'']"

definition sample_query :: pystr where
  "sample_query = u ''PDF data''"

text \<open>
  What every cache the module builds keeps true: its keys are distinct and it holds at
  most \<open>maxsize\<close> entries; and the capacities of the module's two caches.
\<close>

definition lfu_inv :: "('k, 'v) lfu_cache \<Rightarrow> bool" where
  "lfu_inv c \<longleftrightarrow> distinct (map fst (lfu_items c)) \<and> length (lfu_items c) \<le> lfu_maxsize c"

definition caches_ok :: "pipeline_state \<Rightarrow> bool" where
  "caches_ok st \<longleftrightarrow>
     lfu_inv (pdf_cache st) \<and> lfu_maxsize (pdf_cache st) = 10 \<and>
     lfu_inv (query_cache st) \<and> lfu_maxsize (query_cache st) = 100"

text \<open>
  How often a cache has counted a key as used (0 for a key it does not hold), and the
  value it holds for a key.
\<close>

definition use_count :: "('k, 'v) lfu_cache \<Rightarrow> 'k \<Rightarrow> nat" where
  "use_count c k = (case map_of (lfu_items c) k of None \<Rightarrow> 0 | Some (v, n) \<Rightarrow> n)"

definition cached_value :: "('k, 'v) lfu_cache \<Rightarrow> 'k \<Rightarrow> 'v option" where
  "cached_value c k = (case map_of (lfu_items c) k of None \<Rightarrow> None | Some (v, n) \<Rightarrow> Some v)"

text \<open>The history stored for a session; a session without memory has none.\<close>

definition session_history :: "pipeline_state \<Rightarrow> pystr \<Rightarrow> message list" where
  "session_history st session_id =
     (case sessions st session_id of None \<Rightarrow> [] | Some m \<Rightarrow> history m)"

definition user_msg :: "pystr \<Rightarrow> message" where
  "user_msg user_query = \<lparr>role = u ''User'', content = user_query\<rparr>"

definition assistant_msg :: "pystr \<Rightarrow> message" where
  "assistant_msg answer_text = \<lparr>role = u ''Assistant'', content = answer_text\<rparr>"

text \<open>\<open>if groq_api_key:\<close> as a predicate of the environment.\<close>

definition key_set :: "pipeline_env \<Rightarrow> bool" where
  "key_set env \<longleftrightarrow> groq_api_key env \<noteq> None \<and> groq_api_key env \<noteq> Some []"


text \<open>
  A standard output encoded in UTF-8: it prints every message but one that holds a
  surrogate code point.
\<close>

definition utf8_stdout :: "pystr \<Rightarrow> exn option" where
  "utf8_stdout msg =
     (if list_ex (\<lambda>c. 55296 \<le> c \<and> c \<le> 57343) msg
      then Some (UnicodeEncodeError (u ''surrogates not allowed''))
      else None)"

text \<open>
  An environment for the pipeline: no API key, no \<open>langchain_groq\<close>, one PDF of
  three pages at \<open>/tmp/tmpab.pdf\<close>, a language model whose call raises, a standard
  output in UTF-8; and a state with two sessions.
\<close>

definition sample_env :: pipeline_env where
  "sample_env =
     \<lparr>groq_api_key = None,
      pypdf_importable = True,
      path_exists = (\<lambda>p. p = u ''/tmp/tmpab.pdf''),
      pdf_pages = (\<lambda>p. Inr [Some (u ''Tax rules for PDF''), None, Some (u ''Nothing here'')]),
      langchain_groq_importable = False,
      chatgroq_error = None,
      llm_invoke = (\<lambda>prompt. Inl (RuntimeError (u ''rate limit''))),
      str_lower = ascii_lower,
      print_error = utf8_stdout\<rparr>"

definition two_sessions :: pipeline_state where
  "two_sessions =
     initial_state\<lparr>sessions :=
       [u ''alice'' \<mapsto> \<lparr>history = [user_msg (u ''hi''), assistant_msg (u ''hello'')],
                          messages = []\<rparr>,
        u ''bob'' \<mapsto> \<lparr>history = [user_msg (u ''tax?'')], messages = []\<rparr>]\<rparr>"

text \<open>
  A full cache of capacity 2 whose keys were each stored and never read, \<open>a.pdf\<close>
  first; and the sample environment without \<open>pypdf\<close>.
\<close>

definition small_cache :: "(pystr, pystr) lfu_cache" where
  "small_cache =
     \<lparr>lfu_maxsize = 2, lfu_items = [(u ''a.pdf'', u ''A'', 1), (u ''b.pdf'', u ''B'', 1)]\<rparr>"



section \<open>Properties of the HTTP endpoints\<close>

lemma u_simps [simp]: "u [] = []" "u (c # cs) = of_char c # u cs"
  by (simp_all add: u_def)

subsection \<open>Temporary files and base names\<close>

lemma mkstemp_inner_Inr:
  "mkstemp_inner env d ns = Inr p \<Longrightarrow>
     d p = None \<and> open_error env p = None \<and>
     (\<exists>n \<in> set ns. p = path_join (tempdir env) (u ''tmp'' @ n @ u ''.pdf''))"
  by (induction ns) (auto simp: Let_def split: if_splits option.splits)

lemma basename_path_join:
  assumes "47 \<notin> set b"
  shows "basename (path_join a b) = b"
proof -
  have all: "\<forall>x \<in> set (rev b). x \<noteq> 47" using assms by auto
  have b: "takeWhile (\<lambda>c. c \<noteq> 47) (rev b) = rev b"
    using all by (simp add: takeWhile_eq_all_conv)
  have stop: "takeWhile (\<lambda>c. c \<noteq> 47) (rev b @ 47 # ys) = rev b" for ys
    using all by (subst takeWhile_append2) auto
  show ?thesis
  proof (cases "a = []")
    case True
    then show ?thesis using assms b
      by (cases b) (auto simp: basename_def path_join_def)
  next
    case False
    then obtain a' x where a: "a = a' @ [x]" by (meson rev_exhaust)
    have hd: "b \<noteq> [] \<Longrightarrow> hd b \<noteq> 47" using assms by (cases b) auto
    show ?thesis
    proof (cases "x = 47")
      case True
      then show ?thesis using a hd stop[of "rev a'"]
        by (auto simp: basename_def path_join_def)
    next
      case False
      then show ?thesis using a hd stop[of "x # rev a'"]
        by (auto simp: basename_def path_join_def)
    qed
  qed
qed

lemma u_set_47: "47 \<notin> set (u ''tmp'')" "47 \<notin> set (u ''.pdf'')"
  by simp_all

lemma NamedTemporaryFile_Inr:
  assumes "NamedTemporaryFile env d = Inr p"
  shows "d p = None"
    and "temp_names_ok env \<Longrightarrow>
           47 \<notin> set (basename p) \<and> p = path_join (tempdir env) (basename p)"
proof -
  from assms obtain n where n: "n \<in> set (temp_names env)"
      and p: "p = path_join (tempdir env) (u ''tmp'' @ n @ u ''.pdf'')" and d: "d p = None"
    using mkstemp_inner_Inr[of env d "temp_names env" p]
    by (auto simp: NamedTemporaryFile_def)
  show "d p = None" by (rule d)
  assume "temp_names_ok env"
  with n have "47 \<notin> set (u ''tmp'' @ n @ u ''.pdf'')"
    using u_set_47 by (auto simp: temp_names_ok_def)
  then show "47 \<notin> set (basename p) \<and> p = path_join (tempdir env) (basename p)"
    using p by (simp add: basename_path_join del: u_simps)
qed

lemma fresh_pdf_id:
  assumes "uploads_wf env st" "temp_names_ok env" "NamedTemporaryFile env (disk st) = Inr p"
  shows "uploaded_pdfs st (basename p) = None"
proof (rule ccontr)
  assume "uploaded_pdfs st (basename p) \<noteq> None"
  then obtain q where q: "uploaded_pdfs st (basename p) = Some q" by auto
  with assms(1) have "disk st q \<noteq> None" and "q = path_join (tempdir env) (basename p)"
    by (auto simp: uploads_wf_def)
  moreover have "p = path_join (tempdir env) (basename p)" and "disk st p = None"
    using NamedTemporaryFile_Inr[OF assms(3)] assms(2) by auto
  ultimately show False by simp
qed

subsection \<open>The invariant of the uploaded-PDF map\<close>

lemma query_pdf_state: "snd (query_pdf pdf_id question session_id st) = st"
  by (simp add: query_pdf_def split: option.splits)

lemma uploads_wf_empty: "uploads_wf env \<lparr>uploaded_pdfs = Map.empty, disk = d\<rparr>"
  by (simp add: uploads_wf_def)

lemma upload_pdf_wf:
  assumes "uploads_wf env st" "temp_names_ok env"
  shows "uploads_wf env (snd (upload_pdf env file st))"
proof (cases "NamedTemporaryFile env (disk st)")
  case (Inl e)
  then show ?thesis using assms(1)
    by (simp add: upload_pdf_def Let_def split: option.splits del: u_simps)
next
  case (Inr p)
  have p: "disk st p = None" "47 \<notin> set (basename p)" "p = path_join (tempdir env) (basename p)"
    using NamedTemporaryFile_Inr[OF Inr] assms(2) by auto
  have stored: "uploads_wf env (st\<lparr>disk := (disk st)(p \<mapsto> file_content file),
                            uploaded_pdfs := (uploaded_pdfs st)(basename p \<mapsto> p)\<rparr>)"
    using assms(1) p unfolding uploads_wf_def by auto
  have partial: "uploads_wf env (st\<lparr>disk := (disk st)(p \<mapsto> c)\<rparr>)" for c
    using assms(1) p unfolding uploads_wf_def by auto
  show ?thesis using assms(1) Inr stored partial
    by (simp add: upload_pdf_def Let_def split: option.splits prod.splits del: u_simps)
qed

lemma delete_pdf_wf:
  assumes "uploads_wf env st"
  shows "uploads_wf env (snd (delete_pdf env pdf_id st))"
proof (cases "uploaded_pdfs st pdf_id")
  case None
  then show ?thesis using assms by (simp add: delete_pdf_def del: u_simps)
next
  case (Some p)
  have other: "disk st q \<noteq> None \<and> 47 \<notin> set i \<and> q = path_join (tempdir env) i \<and> q \<noteq> p"
    if "i \<noteq> pdf_id" "uploaded_pdfs st i = Some q" for i q
  proof -
    from assms that(2) have q: "disk st q \<noteq> None" "47 \<notin> set i" "q = path_join (tempdir env) i"
      by (auto simp: uploads_wf_def)
    from assms Some have pp: "47 \<notin> set pdf_id" "p = path_join (tempdir env) pdf_id"
      by (auto simp: uploads_wf_def)
    have "q \<noteq> p"
    proof
      assume "q = p"
      then have "basename (path_join (tempdir env) i) = basename (path_join (tempdir env) pdf_id)"
        using q(3) pp(2) by simp
      then show False using q(2) pp(1) that(1) by (simp add: basename_path_join)
    qed
    with q show ?thesis by simp
  qed
  show ?thesis using Some other
    by (auto simp: delete_pdf_def uploads_wf_def os_remove_def Let_def
        split: option.splits if_splits simp del: u_simps)
qed

lemma tmp_ok: "NamedTemporaryFile env_ok (disk st_one) = Inr (u ''/tmp/tmpcd.pdf'')"
  by (simp add: NamedTemporaryFile_def env_ok_def st_one_def path_join_def)

lemma wf_one: "uploads_wf env_ok st_one"
  by (simp add: uploads_wf_def env_ok_def st_one_def path_join_def)

lemma names_ok: "temp_names_ok env_ok"
  by (simp add: temp_names_ok_def env_ok_def)

subsection \<open>Upload\<close>

lemma tmp_readonly:
  "NamedTemporaryFile env_readonly (disk st_one) =
     Inl (OSError (u ''[Errno 30] Read-only file system: '' @ [39] @ u ''/tmp/tmpcd.pdf'' @ [39]))"
  by (simp add: NamedTemporaryFile_def env_readonly_def env_ok_def st_one_def path_join_def)

lemma tmp_disk_full: "NamedTemporaryFile env_disk_full (disk st_one) = Inr (u ''/tmp/tmpcd.pdf'')"
  by (simp add: NamedTemporaryFile_def env_disk_full_def env_ok_def st_one_def path_join_def)

text \<open>
  Claim C2, as amended: \<open>upload_pdf\<close> raises \<open>HTTPException(400)\<close> and leaves the
  state as it was when the file name does not end in \<open>.pdf\<close>, and when the upload was
  read and is longer than \<open>10 * 1024 * 1024\<close> bytes. For a file it accepts, the
  outcome follows the three steps of storing it. When reading the upload raises, or
  creating the temporary file raises, the endpoint raises what its handlers make of
  that exception and the state is as it was. When the file is created at \<open>pdf_path\<close>,
  a path that was not on the disk, and writing it raises, the endpoint raises what its
  handlers make of that exception, the map is as it was and the file stays on the disk
  with the bytes written so far. The handlers turn every exception that is not an
  \<open>HTTPException\<close> into \<open>HTTPException(500)\<close>. When all three steps succeed, the
  payload is stored at \<open>pdf_path\<close>, \<open>uploaded_pdfs\<close> maps the base name of the path to
  the path, the response carries that base name as \<open>pdf_id\<close>, and the \<open>pdf_id\<close> was
  not a key of the map before (in every state the endpoints reach).
\<close>

theorem C2_upload_pdf_outcomes:
  "(\<not> endswith (filename file) (u ''.pdf'')
      \<longrightarrow> (\<exists>detail. upload_pdf env file st = (Inl (HTTPException 400 detail), st)))
   \<and> (endswith (filename file) (u ''.pdf'') \<and> read_error env = Some e
      \<longrightarrow> upload_pdf env file st = (Inl (upload_except e), st))
   \<and> (endswith (filename file) (u ''.pdf'') \<and> read_error env = None
       \<and> length (file_content file) > 10 * 1024 * 1024
      \<longrightarrow> (\<exists>detail. upload_pdf env file st = (Inl (HTTPException 400 detail), st)))
   \<and> (endswith (filename file) (u ''.pdf'') \<and> read_error env = None
       \<and> length (file_content file) \<le> 10 * 1024 * 1024
      \<longrightarrow> (case NamedTemporaryFile env (disk st) of
             Inl e' \<Rightarrow> upload_pdf env file st = (Inl (upload_except e'), st)
           | Inr pdf_path \<Rightarrow>
               disk st pdf_path = None
               \<and> (case write_error env pdf_path of
                     Some (e', n) \<Rightarrow>
                       upload_pdf env file st =
                         (Inl (upload_except e'),
                          \<lparr>uploaded_pdfs = uploaded_pdfs st,
                           disk = (disk st)(pdf_path \<mapsto> take n (file_content file))\<rparr>)
                   | None \<Rightarrow>
                       upload_pdf env file st =
                         (Inr (JDict
                            [(u ''pdf_id'', JStr (basename pdf_path)),
                             (u ''filename'', JStr (filename file)),
                             (u ''message'',
                              JStr ([9989]
                                @ u '' PDF uploaded successfully (minimal version)''))]),
                          \<lparr>uploaded_pdfs = (uploaded_pdfs st)(basename pdf_path \<mapsto> pdf_path),
                           disk = (disk st)(pdf_path \<mapsto> file_content file)\<rparr>)
                       \<and> (uploads_wf env st \<and> temp_names_ok env
                            \<longrightarrow> uploaded_pdfs st (basename pdf_path) = None))))
   \<and> ((\<forall>status_code detail. e \<noteq> HTTPException status_code detail)
      \<longrightarrow> upload_except e =
            HTTPException 500 ([10060] @ u '' Failed to upload: '' @ exn_str e))
   \<and> upload_except (HTTPException status_code detail) = HTTPException status_code detail"
proof (intro conjI impI)
  assume "\<not> endswith (filename file) (u ''.pdf'')"
  then show "\<exists>detail. upload_pdf env file st = (Inl (HTTPException 400 detail), st)"
    by (simp add: upload_pdf_def del: u_simps)
next
  assume "endswith (filename file) (u ''.pdf'') \<and> read_error env = Some e"
  then show "upload_pdf env file st = (Inl (upload_except e), st)"
    by (simp add: upload_pdf_def del: u_simps)
next
  assume "endswith (filename file) (u ''.pdf'') \<and> read_error env = None
       \<and> length (file_content file) > 10 * 1024 * 1024"
  then show "\<exists>detail. upload_pdf env file st = (Inl (HTTPException 400 detail), st)"
    by (simp add: upload_pdf_def max_size_def Let_def del: u_simps)
next
  assume ok: "endswith (filename file) (u ''.pdf'') \<and> read_error env = None
       \<and> length (file_content file) \<le> 10 * 1024 * 1024"
  show "case NamedTemporaryFile env (disk st) of
             Inl e' \<Rightarrow> upload_pdf env file st = (Inl (upload_except e'), st)
           | Inr pdf_path \<Rightarrow>
               disk st pdf_path = None
               \<and> (case write_error env pdf_path of
                     Some (e', n) \<Rightarrow>
                       upload_pdf env file st =
                         (Inl (upload_except e'),
                          \<lparr>uploaded_pdfs = uploaded_pdfs st,
                           disk = (disk st)(pdf_path \<mapsto> take n (file_content file))\<rparr>)
                   | None \<Rightarrow>
                       upload_pdf env file st =
                         (Inr (JDict
                            [(u ''pdf_id'', JStr (basename pdf_path)),
                             (u ''filename'', JStr (filename file)),
                             (u ''message'',
                              JStr ([9989]
                                @ u '' PDF uploaded successfully (minimal version)''))]),
                          \<lparr>uploaded_pdfs = (uploaded_pdfs st)(basename pdf_path \<mapsto> pdf_path),
                           disk = (disk st)(pdf_path \<mapsto> file_content file)\<rparr>)
                       \<and> (uploads_wf env st \<and> temp_names_ok env
                            \<longrightarrow> uploaded_pdfs st (basename pdf_path) = None))"
  proof (cases "NamedTemporaryFile env (disk st)")
    case (Inl e')
    with ok show ?thesis
      by (simp add: upload_pdf_def max_size_def Let_def del: u_simps)
  next
    case (Inr p)
    have fresh: "disk st p = None" using NamedTemporaryFile_Inr(1)[OF Inr] .
    have id: "uploads_wf env st \<and> temp_names_ok env \<longrightarrow> uploaded_pdfs st (basename p) = None"
      using fresh_pdf_id[OF _ _ Inr] by blast
    show ?thesis
    proof (cases "write_error env p")
      case None
      with ok Inr fresh id show ?thesis
        by (simp add: upload_pdf_def max_size_def Let_def del: u_simps)
    next
      case (Some en)
      obtain e' n where en: "en = (e', n)" by (cases en)
      with ok Inr fresh Some show ?thesis
        by (simp add: upload_pdf_def max_size_def Let_def del: u_simps)
    qed
  qed
next
  assume "\<forall>status_code detail. e \<noteq> HTTPException status_code detail"
  then show "upload_except e =
            HTTPException 500 ([10060] @ u '' Failed to upload: '' @ exn_str e)"
    by (cases e) (simp_all add: upload_except_def del: u_simps)
next
  show "upload_except (HTTPException status_code detail) = HTTPException status_code detail"
    by (simp add: upload_except_def)
qed

theorem C2_upload_pdf_outcomes_witness:
  "upload_pdf env_ok file_ok st_one =
     (Inr (JDict [(u ''pdf_id'', JStr (u ''tmpcd.pdf'')),
                  (u ''filename'', JStr (u ''report.pdf'')),
                  (u ''message'',
                   JStr ([9989] @ u '' PDF uploaded successfully (minimal version)''))]),
      \<lparr>uploaded_pdfs = (uploaded_pdfs st_one)(u ''tmpcd.pdf'' \<mapsto> u ''/tmp/tmpcd.pdf''),
       disk = (disk st_one)(u ''/tmp/tmpcd.pdf'' \<mapsto> [37, 80, 68, 70, 45])\<rparr>)
   \<and> uploaded_pdfs st_one (u ''tmpcd.pdf'') = None
   \<and> (\<exists>detail. upload_pdf env_ok file_txt st_one = (Inl (HTTPException 400 detail), st_one))
   \<and> upload_pdf env_read_fails file_ok st_one =
       (Inl (HTTPException 500 ([10060] @ u '' Failed to upload: client disconnected'')), st_one)
   \<and> upload_pdf env_disk_full file_ok st_one =
       (Inl (HTTPException 500
          ([10060] @ u '' Failed to upload: [Errno 28] No space left on device'')),
        \<lparr>uploaded_pdfs = uploaded_pdfs st_one,
         disk = (disk st_one)(u ''/tmp/tmpcd.pdf'' \<mapsto> [37, 80])\<rparr>)"
proof -
  have e1: "endswith (filename file_ok) (u ''.pdf'')"
    by (simp add: file_ok_def endswith_def)
  have l1: "length (file_content file_ok) \<le> 10 * 1024 * 1024"
    by (simp add: file_ok_def)
  have e2: "\<not> endswith (filename file_txt) (u ''.pdf'')"
    by (simp add: file_txt_def endswith_def)
  have bn: "basename (u ''/tmp/tmpcd.pdf'') = u ''tmpcd.pdf''"
    by (simp add: basename_def)
  have r: "read_error env_ok = None" "read_error env_disk_full = None"
      "read_error env_read_fails = Some (RuntimeError (u ''client disconnected''))"
    by (simp_all add: env_ok_def env_disk_full_def env_read_fails_def)
  have w: "write_error env_ok (u ''/tmp/tmpcd.pdf'') = None"
      "write_error env_disk_full (u ''/tmp/tmpcd.pdf'')
         = Some (OSError (u ''[Errno 28] No space left on device''), 2)"
    by (simp_all add: env_ok_def env_disk_full_def)
  from C2_upload_pdf_outcomes[of file_ok env_ok st_one]
    e1 l1 r(1) w(1) tmp_ok wf_one names_ok bn
  have a: "upload_pdf env_ok file_ok st_one =
     (Inr (JDict [(u ''pdf_id'', JStr (u ''tmpcd.pdf'')),
                  (u ''filename'', JStr (u ''report.pdf'')),
                  (u ''message'',
                   JStr ([9989] @ u '' PDF uploaded successfully (minimal version)''))]),
      \<lparr>uploaded_pdfs = (uploaded_pdfs st_one)(u ''tmpcd.pdf'' \<mapsto> u ''/tmp/tmpcd.pdf''),
       disk = (disk st_one)(u ''/tmp/tmpcd.pdf'' \<mapsto> [37, 80, 68, 70, 45])\<rparr>)
     \<and> uploaded_pdfs st_one (u ''tmpcd.pdf'') = None"
    by (simp add: file_ok_def del: u_simps)
  from C2_upload_pdf_outcomes[of file_txt env_ok st_one] e2
  have b: "\<exists>detail. upload_pdf env_ok file_txt st_one = (Inl (HTTPException 400 detail), st_one)"
    by blast
  from C2_upload_pdf_outcomes[of file_ok env_read_fails st_one
      "RuntimeError (u ''client disconnected'')"] e1 r(3)
  have c: "upload_pdf env_read_fails file_ok st_one =
       (Inl (HTTPException 500 ([10060] @ u '' Failed to upload: client disconnected'')), st_one)"
    by (simp add: upload_except_def)
  from C2_upload_pdf_outcomes[of file_ok env_disk_full st_one]
    e1 l1 r(2) w(2) tmp_disk_full
  have d: "upload_pdf env_disk_full file_ok st_one =
       (Inl (HTTPException 500
          ([10060] @ u '' Failed to upload: [Errno 28] No space left on device'')),
        \<lparr>uploaded_pdfs = uploaded_pdfs st_one,
         disk = (disk st_one)(u ''/tmp/tmpcd.pdf'' \<mapsto> [37, 80])\<rparr>)"
    by (simp add: file_ok_def upload_except_def)
  from a b c d show ?thesis by blast
qed

text \<open>
  Claim C2 as stated fails where the payload cannot be stored: the file name ends in
  \<open>.pdf\<close> and the payload is 5 bytes, and on a read-only file system the endpoint
  answers 500 and stores nothing; on a full disk it answers 500, adds no \<open>pdf_id\<close>,
  and leaves a file of two bytes behind.
\<close>

theorem C2_upload_pdf_counterexample:
  "endswith (filename file_ok) (u ''.pdf'')
   \<and> length (file_content file_ok) \<le> 10 * 1024 * 1024
   \<and> upload_pdf env_readonly file_ok st_one =
       (Inl (HTTPException 500
          ([10060] @ u '' Failed to upload: '' @ u ''[Errno 30] Read-only file system: ''
           @ [39] @ u ''/tmp/tmpcd.pdf'' @ [39])), st_one)
   \<and> upload_pdf env_disk_full file_ok st_one =
       (Inl (HTTPException 500
          ([10060] @ u '' Failed to upload: '' @ u ''[Errno 28] No space left on device'')),
        st_one\<lparr>disk := (disk st_one)(u ''/tmp/tmpcd.pdf'' \<mapsto> [37, 80])\<rparr>)
   \<and> (\<nexists>response st'. upload_pdf env_readonly file_ok st_one = (Inr response, st'))
   \<and> (\<nexists>response st'. upload_pdf env_disk_full file_ok st_one = (Inr response, st'))"
proof -
  have e1: "endswith (filename file_ok) (u ''.pdf'')"
    by (simp add: file_ok_def endswith_def)
  have l1: "length (file_content file_ok) \<le> 10 * 1024 * 1024"
    by (simp add: file_ok_def)
  have l2: "\<not> max_size < length (file_content file_ok)"
    by (simp add: file_ok_def max_size_def)
  have r: "read_error env_readonly = None" "read_error env_disk_full = None"
    by (simp_all add: env_readonly_def env_disk_full_def env_ok_def)
  have w: "write_error env_disk_full (u ''/tmp/tmpcd.pdf'')
         = Some (OSError (u ''[Errno 28] No space left on device''), 2)"
    by (simp add: env_disk_full_def)
  have ro: "upload_pdf env_readonly file_ok st_one =
       (Inl (HTTPException 500
          ([10060] @ u '' Failed to upload: '' @ u ''[Errno 30] Read-only file system: ''
           @ [39] @ u ''/tmp/tmpcd.pdf'' @ [39])), st_one)"
    using e1 l2 r(1)
    by (simp add: upload_pdf_def upload_except_def Let_def tmp_readonly del: u_simps)
  have df: "upload_pdf env_disk_full file_ok st_one =
       (Inl (HTTPException 500
          ([10060] @ u '' Failed to upload: '' @ u ''[Errno 28] No space left on device'')),
        st_one\<lparr>disk := (disk st_one)(u ''/tmp/tmpcd.pdf'' \<mapsto> [37, 80])\<rparr>)"
    using e1 l2 r(2) w
    by (simp add: upload_pdf_def upload_except_def Let_def tmp_disk_full file_ok_def
        del: u_simps)
  have n1: "\<nexists>response st'. upload_pdf env_readonly file_ok st_one = (Inr response, st')"
    unfolding ro by simp
  have n2: "\<nexists>response st'. upload_pdf env_disk_full file_ok st_one = (Inr response, st')"
    unfolding df by simp
  from e1 l1 ro df n1 n2 show ?thesis by (intro conjI)
qed

subsection \<open>Unknown identifiers\<close>

text \<open>
  Claim C7: for a \<open>pdf_id\<close> that is not a key of \<open>uploaded_pdfs\<close>, the query endpoint
  and the delete endpoint each raise \<open>HTTPException(404)\<close> and leave the state, the
  map included, as it was.
\<close>

theorem C7_unknown_pdf_id_404:
  assumes "uploaded_pdfs st pdf_id = None"
  shows "query_pdf pdf_id question session_id st =
           (Inl (HTTPException 404
              ([10060] @ u '' pdf_id '' @ [39] @ pdf_id @ [39]
               @ u '' not found. Please upload the PDF first!'')), st)
       \<and> delete_pdf env pdf_id st =
           (Inl (HTTPException 404
              ([10060] @ u '' pdf_id '' @ [39] @ pdf_id @ [39] @ u '' not found'')), st)"
  using assms by (simp add: query_pdf_def delete_pdf_def)

theorem C7_unknown_pdf_id_404_witness:
  "query_pdf (u ''nope.pdf'') (u ''what?'') (u ''default'') st_one =
           (Inl (HTTPException 404
              ([10060] @ u '' pdf_id '' @ [39] @ u ''nope.pdf'' @ [39]
               @ u '' not found. Please upload the PDF first!'')), st_one)
       \<and> delete_pdf env_ok (u ''nope.pdf'') st_one =
           (Inl (HTTPException 404
              ([10060] @ u '' pdf_id '' @ [39] @ u ''nope.pdf'' @ [39] @ u '' not found'')), st_one)"
proof -
  have h: "uploaded_pdfs st_one (u ''nope.pdf'') = None"
    by (simp add: st_one_def)
  show ?thesis
    by (rule C7_unknown_pdf_id_404 [OF h])
qed

subsection \<open>Delete\<close>

text \<open>
  Claim C10: for a \<open>pdf_id\<close> that is a key of \<open>uploaded_pdfs\<close> whose file exists, when
  removing the file raises, the delete endpoint raises \<open>HTTPException(500)\<close>, and the
  state it leaves has the \<open>pdf_id\<close> removed from the map all the same; the disk is
  as it was.
\<close>

theorem C10_delete_pdf_remove_fails:
  assumes "uploaded_pdfs st pdf_id = Some pdf_path"
      and "disk st pdf_path \<noteq> None"
      and "remove_error env pdf_path = Some e"
  shows "delete_pdf env pdf_id st =
           (Inl (HTTPException 500 ([10060] @ u '' Failed to delete: '' @ exn_str e)),
            st\<lparr>uploaded_pdfs := (uploaded_pdfs st)(pdf_id := None)\<rparr>)
       \<and> uploaded_pdfs (snd (delete_pdf env pdf_id st)) pdf_id = None
       \<and> disk (snd (delete_pdf env pdf_id st)) = disk st"
  using assms by (simp add: delete_pdf_def os_remove_def)

theorem C10_delete_pdf_remove_fails_witness:
  "delete_pdf env_readonly (u ''tmpab.pdf'') st_one =
     (Inl (HTTPException 500
        ([10060] @ u '' Failed to delete: [Errno 30] Read-only file system: ''
         @ [39] @ u ''/tmp/tmpab.pdf'' @ [39])),
      st_one\<lparr>uploaded_pdfs := Map.empty\<rparr>)
   \<and> uploaded_pdfs (snd (delete_pdf env_readonly (u ''tmpab.pdf'') st_one)) (u ''tmpab.pdf'') = None
   \<and> disk (snd (delete_pdf env_readonly (u ''tmpab.pdf'') st_one)) (u ''/tmp/tmpab.pdf'')
       = Some [37, 80, 68, 70]"
proof -
  have 1: "uploaded_pdfs st_one (u ''tmpab.pdf'') = Some (u ''/tmp/tmpab.pdf'')"
    by (simp add: st_one_def)
  have 2: "disk st_one (u ''/tmp/tmpab.pdf'') \<noteq> None"
    by (simp add: st_one_def)
  have 3: "remove_error env_readonly (u ''/tmp/tmpab.pdf'') =
             Some (OSError (u ''[Errno 30] Read-only file system: ''
                            @ [39] @ u ''/tmp/tmpab.pdf'' @ [39]))"
    by (simp add: env_readonly_def)
  have 4: "(uploaded_pdfs st_one)(u ''tmpab.pdf'' := None) = Map.empty"
    by (simp add: st_one_def)
  show ?thesis
    using C10_delete_pdf_remove_fails[OF 1 2 3] 4 by (simp add: st_one_def)
qed

section \<open>Properties of the keyword search\<close>

lemma str_contains_sublist: "str_contains t word \<longleftrightarrow> sublist word t"
  by (induction t) (auto simp: sublist_Cons_right)

lemma scored_texts_eq:
  "scored_texts lower qw texts =
     map (\<lambda>t. (score qw (lower t), t)) (filter (\<lambda>t. 0 < score qw (lower t)) texts)"
  by (induction texts) (simp_all add: Let_def)

lemma insort_key_map_pair:
  "insort_key fst (g x, x) (map (\<lambda>t. (g t, t)) ys) = map (\<lambda>t. (g t, t)) (insort_key g x ys)"
  by (induction ys) simp_all

lemma sort_key_map_pair:
  "sort_key fst (map (\<lambda>t. (g t, t)) ys) = map (\<lambda>t. (g t, t)) (sort_key g ys)"
  by (induction ys) (simp_all add: insort_key_map_pair)

lemma sort_reverse_map_pair:
  "map snd (sort_reverse fst (map (\<lambda>t. (g t, t)) ys)) = sort_reverse g ys"
proof -
  have "sort_key fst (rev (map (\<lambda>t. (g t, t)) ys)) = map (\<lambda>t. (g t, t)) (sort_key g (rev ys))"
    using sort_key_map_pair[of g "rev ys"] by (simp add: rev_map)
  then show ?thesis
    by (simp add: sort_reverse_def rev_map [symmetric] comp_def)
qed

lemma mset_sort_reverse: "mset (sort_reverse key xs) = mset xs"
  by (simp add: sort_reverse_def)

lemma sorted_sort_reverse: "sorted_wrt (\<lambda>a b. key b \<le> key a) (sort_reverse key xs)"
proof -
  have "sorted (map key (sort_key key (rev xs)))" by simp
  then have "sorted_wrt (\<lambda>a b. key a \<le> key b) (sort_key key (rev xs))"
    by (simp add: sorted_map)
  then show ?thesis
    by (simp add: sort_reverse_def sorted_wrt_rev)
qed

lemma sort_reverse_stable:
  "filter (\<lambda>y. key y = k) (sort_reverse key xs) = filter (\<lambda>y. key y = k) xs"
  by (simp add: sort_reverse_def rev_filter [symmetric] sort_key_stable)

lemma simple_text_search_eq:
  "simple_text_search lower query texts (int k) =
     take k (sort_reverse (\<lambda>t. score (split (lower query)) (lower t))
               (filter (\<lambda>t. 0 < score (split (lower query)) (lower t)) texts))"
  by (simp add: simple_text_search_def slice_to_def scored_texts_eq take_map [symmetric]
      sort_reverse_map_pair Let_def)

lemma ranked_length:
  "length (sort_reverse key (filter P texts)) \<le> length texts"
  by (simp add: sort_reverse_def)

text \<open>
  Claim C3: for a query, a list of texts and a bound \<open>k\<close>, the result of
  \<open>simple_text_search\<close> is the first \<open>k\<close> entries of the ranking; the ranking (the
  result for a bound that cuts nothing) holds exactly the texts whose score is
  positive, each as often as it stands in \<open>texts\<close>, in non-increasing order of score;
  so no text of score zero is in any result. The score of a text is
  \<open>score (split (lower query)) (lower text)\<close>.
\<close>

theorem C3_simple_text_search:
  "mset (simple_text_search lower query texts (int (length texts))) =
     mset (filter (\<lambda>t. 0 < score (split (lower query)) (lower t)) texts)
   \<and> sorted_wrt (\<lambda>a b. score (split (lower query)) (lower b) \<le> score (split (lower query)) (lower a))
        (simple_text_search lower query texts (int (length texts)))
   \<and> simple_text_search lower query texts (int k) =
        take k (simple_text_search lower query texts (int (length texts)))
   \<and> set (simple_text_search lower query texts (int k))
        \<subseteq> {t. 0 < score (split (lower query)) (lower t)}"
proof -
  let ?sc = "\<lambda>t. score (split (lower query)) (lower t)"
  let ?ranked = "sort_reverse ?sc (filter (\<lambda>t. 0 < ?sc t) texts)"
  have full: "simple_text_search lower query texts (int (length texts)) = ?ranked"
    using ranked_length[of ?sc "\<lambda>t. 0 < ?sc t" texts]
    by (simp add: simple_text_search_eq)
  have k: "simple_text_search lower query texts (int k) = take k ?ranked"
    by (rule simple_text_search_eq)
  have m: "mset ?ranked = mset (filter (\<lambda>t. 0 < ?sc t) texts)"
    by (rule mset_sort_reverse)
  have s: "sorted_wrt (\<lambda>a b. ?sc b \<le> ?sc a) ?ranked"
    by (rule sorted_sort_reverse)
  have "set ?ranked = set (filter (\<lambda>t. 0 < ?sc t) texts)"
    using m by (metis set_mset_mset)
  then have sub: "set (take k ?ranked) \<subseteq> {t. 0 < ?sc t}"
    using set_take_subset[of k ?ranked] by auto
  show ?thesis
    unfolding full k using m s sub by simp
qed

theorem C3_simple_text_search_witness:
  "simple_text_search ascii_lower sample_query sample_texts (int (length sample_texts)) =
     [u ''Data in PDF'', u ''the pdf file'', u ''pdf'']
   \<and> simple_text_search ascii_lower sample_query sample_texts (int 2) =
     [u ''Data in PDF'', u ''the pdf file'']
   \<and> score (split (ascii_lower sample_query)) (ascii_lower (u ''Data in PDF'')) = 2
   \<and> score (split (ascii_lower sample_query)) (ascii_lower (u ''the pdf file'')) = 1
   \<and> score (split (ascii_lower sample_query)) (ascii_lower (u ''no match'')) = 0"
proof -
  have full: "simple_text_search ascii_lower sample_query sample_texts (int (length sample_texts)) =
     [u ''Data in PDF'', u ''the pdf file'', u ''pdf'']"
    by (simp add: simple_text_search_def split_def ascii_lower_def isspace_def score_def
        sort_reverse_def slice_to_def Let_def sample_query_def sample_texts_def)
  have cut: "simple_text_search ascii_lower sample_query sample_texts (int 2) =
      take 2 (simple_text_search ascii_lower sample_query sample_texts (int (length sample_texts)))"
    by (rule C3_simple_text_search[of ascii_lower sample_query sample_texts 2,
          THEN conjunct2, THEN conjunct2, THEN conjunct1])
  have two: "simple_text_search ascii_lower sample_query sample_texts (int 2) =
     [u ''Data in PDF'', u ''the pdf file'']"
    unfolding cut full by simp
  have scores:
    "score (split (ascii_lower sample_query)) (ascii_lower (u ''Data in PDF'')) = 2"
    "score (split (ascii_lower sample_query)) (ascii_lower (u ''the pdf file'')) = 1"
    "score (split (ascii_lower sample_query)) (ascii_lower (u ''no match'')) = 0"
    by (simp_all add: split_def ascii_lower_def isspace_def score_def sample_query_def)
  from full two scores show ?thesis by (intro conjI)
qed

text \<open>
  A negative bound is Python's \<open>xs[:k]\<close> counted from the end: the ranking without its
  last \<open>-k\<close> entries.
\<close>

lemma simple_text_search_negative_bound:
  "simple_text_search lower query texts (- int (Suc j)) =
     take (length (simple_text_search lower query texts (int (length texts))) - Suc j)
       (simple_text_search lower query texts (int (length texts)))"
proof -
  let ?scored = "sort_reverse fst (scored_texts lower (split (lower query)) texts)"
  have len: "length ?scored \<le> length texts"
    by (simp add: sort_reverse_def scored_texts_eq)
  have full: "simple_text_search lower query texts (int (length texts)) = map snd ?scored"
    using len by (simp add: simple_text_search_def slice_to_def Let_def)
  have "nat (int (length ?scored) + - int (Suc j)) = length ?scored - Suc j"
    by simp
  then have "simple_text_search lower query texts (- int (Suc j)) =
      map snd (take (length ?scored - Suc j) ?scored)"
    by (simp add: simple_text_search_def slice_to_def Let_def)
  then show ?thesis unfolding full by (simp add: take_map)
qed

lemma split_from_nonempty: "w \<in> set (split_from cur s) \<Longrightarrow> w \<noteq> []"
  by (induction s arbitrary: cur) (auto split: if_splits)

lemma split_nonempty: "[] \<notin> set (split s)"
  using split_from_nonempty[of "[]" "[]" s] by (auto simp: split_def)

lemma str_count_pos:
  "word \<noteq> [] \<Longrightarrow> 0 < str_count t word \<longleftrightarrow> sublist word t"
proof (induction t word rule: str_count.induct)
  case (1 t word)
  show ?case
  proof (cases t)
    case Nil
    with "1.prems" show ?thesis by (simp add: str_count.simps)
  next
    case (Cons c cs)
    show ?thesis
    proof (cases "prefix word t")
      case True
      then show ?thesis using "1.prems" Cons
        by (subst str_count.simps) (auto simp: prefix_imp_sublist)
    next
      case False
      then have "str_count t word = str_count cs word"
        using "1.prems" Cons by (subst str_count.simps) simp
      moreover have "0 < str_count cs word \<longleftrightarrow> sublist word cs"
        using "1.IH"(2)[OF "1.prems" _ False] "1.prems" Cons by simp
      ultimately show ?thesis using False Cons "1.prems"
        by (cases word) (auto simp: sublist_Cons_right)
    qed
  qed
qed

lemma score_once:
  "[] \<notin> set qw \<Longrightarrow> score qw t = sum_list (map (\<lambda>word. min 1 (str_count t word)) qw)"
proof (induction qw)
  case Nil
  then show ?case by (simp add: score_def)
next
  case (Cons w qw)
  then have w: "w \<noteq> []" and rest: "[] \<notin> set qw" by auto
  have "str_contains t w \<longleftrightarrow> 0 < str_count t w"
    using str_count_pos[OF w] by (simp add: str_contains_sublist)
  then show ?case using Cons.IH[OF rest]
    by (auto simp: score_def)
qed

text \<open>
  Claim C4, as amended: the score of a text is the number of query words, each counted
  as often as it stands in the query, that occur in the lower-cased text at least once
  as a substring. A word that occurs several times in the text still counts once, so
  the score is at most the number of query words and at most the total number of
  occurrences.
\<close>

theorem C4_score_counts_matching_words:
  "score (split (lower query)) (lower txt) =
     length (filter (\<lambda>word. sublist word (lower txt)) (split (lower query)))
   \<and> score (split (lower query)) (lower txt) =
     sum_list (map (\<lambda>word. min 1 (str_count (lower txt) word)) (split (lower query)))
   \<and> score (split (lower query)) (lower txt) \<le> length (split (lower query))
   \<and> score (split (lower query)) (lower txt)
       \<le> spec_occurrence_score (split (lower query)) (lower txt)"
proof -
  let ?qw = "split (lower query)" and ?t = "lower txt"
  have a: "score ?qw ?t = length (filter (\<lambda>word. sublist word ?t) ?qw)"
    by (simp add: score_def str_contains_sublist)
  have b: "score ?qw ?t = sum_list (map (\<lambda>word. min 1 (str_count ?t word)) ?qw)"
    by (rule score_once[OF split_nonempty])
  have c: "score ?qw ?t \<le> length ?qw"
    by (simp add: score_def)
  have "sum_list (map (\<lambda>word. min 1 (str_count ?t word)) ?qw)
          \<le> sum_list (map (\<lambda>word. str_count ?t word) ?qw)"
    by (rule sum_list_mono) simp
  then have d: "score ?qw ?t \<le> spec_occurrence_score ?qw ?t"
    using b by (simp add: spec_occurrence_score_def)
  from a b c d show ?thesis by blast
qed

theorem C4_score_counts_matching_words_witness:
  "score (split (ascii_lower (u ''Tax PAID tax''))) (ascii_lower (u ''Tax on tax'')) = 2
   \<and> length (filter (\<lambda>word. sublist word (ascii_lower (u ''Tax on tax'')))
         (split (ascii_lower (u ''Tax PAID tax'')))) = 2
   \<and> length (split (ascii_lower (u ''Tax PAID tax''))) = 3
   \<and> spec_occurrence_score (split (ascii_lower (u ''Tax PAID tax'')))
         (ascii_lower (u ''Tax on tax'')) = 4"
proof -
  have s: "score (split (ascii_lower (u ''Tax PAID tax''))) (ascii_lower (u ''Tax on tax'')) = 2"
    by (simp add: split_def ascii_lower_def isspace_def score_def)
  have n: "length (split (ascii_lower (u ''Tax PAID tax''))) = 3"
    by (simp add: split_def ascii_lower_def isspace_def)
  have o: "spec_occurrence_score (split (ascii_lower (u ''Tax PAID tax'')))
         (ascii_lower (u ''Tax on tax'')) = 4"
    by (simp add: split_def ascii_lower_def isspace_def spec_occurrence_score_def
        str_count.simps)
  have f: "score (split (ascii_lower (u ''Tax PAID tax''))) (ascii_lower (u ''Tax on tax'')) =
      length (filter (\<lambda>word. sublist word (ascii_lower (u ''Tax on tax'')))
         (split (ascii_lower (u ''Tax PAID tax''))))"
    by (rule C4_score_counts_matching_words[of ascii_lower "u ''Tax PAID tax''" "u ''Tax on tax''",
          THEN conjunct1])
  have g: "length (filter (\<lambda>word. sublist word (ascii_lower (u ''Tax on tax'')))
         (split (ascii_lower (u ''Tax PAID tax'')))) = 2"
    using f s by (simp only:)
  from s g n o show ?thesis by (intro conjI)
qed

text \<open>
  Claim C4 as stated fails: for the query \<open>tax\<close> and the text \<open>Tax on tax\<close> the word
  occurs twice in the text, and the score is 1.
\<close>

theorem C4_counterexample:
  "score (split (ascii_lower (u ''tax''))) (ascii_lower (u ''Tax on tax'')) = 1
   \<and> spec_occurrence_score (split (ascii_lower (u ''tax''))) (ascii_lower (u ''Tax on tax'')) = 2"
  by (simp add: split_def ascii_lower_def isspace_def score_def spec_occurrence_score_def
      str_count.simps)

section \<open>Properties of the caches\<close>

lemma store_new: "k \<notin> fst ` set es \<Longrightarrow> store k v es = es @ [(k, v, 1)]"
  by (induction es) auto

lemma store_keys:
  "map fst (store k v es) = (if k \<in> fst ` set es then map fst es else map fst es @ [k])"
  by (induction es) (force simp: image_iff)+

lemma store_length:
  "length (store k v es) = (if k \<in> fst ` set es then length es else Suc (length es))"
  using store_keys[of k v es] by (metis length_map length_append_singleton)

lemma store_contains: "k \<in> fst ` set (store k v es)"
  using store_keys[of k v es] by (metis in_set_conv_decomp list.set_map)

lemma bump_length: "length (bump k es) = length es"
  by (induction es) auto

lemma least_used_None: "least_used es = None \<longleftrightarrow> es = []"
  by (cases es) (auto split: option.splits)

lemma bump_keys: "map fst (bump k es) = map fst es"
  by (induction es) auto

lemma least_used_min:
  "least_used es = Some m \<Longrightarrow> e \<in> set es \<Longrightarrow> snd (snd m) \<le> snd (snd e)"
  by (induction es arbitrary: m) (auto simp: least_used_None split: option.splits if_splits)

lemma least_used_Some: "es \<noteq> [] \<Longrightarrow> \<exists>m. least_used es = Some m"
  by (cases es) (auto split: option.splits)

lemma filter_key_remove1:
  "distinct (map fst es) \<Longrightarrow> (k, vn) \<in> set es \<Longrightarrow>
     filter (\<lambda>e. fst e \<noteq> k) es = remove1 (k, vn) es"
  by (induction es) (auto simp: rev_image_eqI filter_id_conv)

lemma distinct_map_fst_remove1:
  "distinct (map fst es) \<Longrightarrow> distinct (map fst (remove1 e es))"
proof (induction es)
  case Nil
  then show ?case by simp
next
  case (Cons a es)
  have "fst ` set (remove1 e es) \<subseteq> fst ` set es"
    using set_remove1_subset[of e es] by blast
  with Cons show ?case by auto
qed

lemma cache_contains_iff: "cache_contains c k \<longleftrightarrow> k \<in> fst ` set (lfu_items c)"
  unfolding cache_contains_def by (metis map_of_eq_None_iff)

lemma make_room_fits: "length (lfu_items c) < lfu_maxsize c \<Longrightarrow> make_room c = Inr c"
  by (subst make_room.simps) simp

lemma make_room_full:
  assumes "lfu_inv c" "length (lfu_items c) = lfu_maxsize c" "0 < lfu_maxsize c"
  shows "\<exists>victim. least_used (lfu_items c) = Some victim \<and>
           make_room c = Inr (c\<lparr>lfu_items := remove1 victim (lfu_items c)\<rparr>)"
proof -
  from assms have "lfu_items c \<noteq> []" by auto
  then obtain m where m: "least_used (lfu_items c) = Some m"
    using least_used_Some by blast
  obtain k v n where kvn: "m = (k, v, n)" by (cases m) auto
  have mem: "m \<in> set (lfu_items c)" using m by (rule least_used_mem)
  have f: "filter (\<lambda>e. fst e \<noteq> k) (lfu_items c) = remove1 m (lfu_items c)"
    using assms(1) mem unfolding kvn lfu_inv_def by (intro filter_key_remove1) auto
  let ?c' = "c\<lparr>lfu_items := remove1 m (lfu_items c)\<rparr>"
  have pop: "popitem c = Inr ((k, v), ?c')"
    using m kvn f by (simp add: popitem_def)
  have len: "length (lfu_items ?c') < lfu_maxsize ?c'"
    using mem assms(2,3) by (simp add: length_remove1)
  have "make_room c = make_room ?c'"
    using assms(2) pop by (subst make_room.simps) simp
  also have "\<dots> = Inr ?c'" using len by (rule make_room_fits)
  finally show ?thesis using m by blast
qed

lemma cache_setitem_inv:
  assumes "lfu_inv c" "0 < lfu_maxsize c"
  shows "\<exists>c'. cache_setitem c k v = Inr c' \<and> lfu_inv c' \<and> lfu_maxsize c' = lfu_maxsize c
           \<and> cache_contains c' k"
proof (cases "cache_contains c k")
  case True
  then have k: "k \<in> fst ` set (lfu_items c)"
    by (simp add: cache_contains_iff)
  have "lfu_inv (c\<lparr>lfu_items := store k v (lfu_items c)\<rparr>)"
    using assms(1) k by (simp add: lfu_inv_def store_keys store_length)
  then show ?thesis using True assms(2)
    by (simp add: cache_setitem_def cache_contains_iff store_contains)
next
  case False
  then have k: "k \<notin> fst ` set (lfu_items c)"
    by (simp add: cache_contains_iff)
  show ?thesis
  proof (cases "length (lfu_items c) < lfu_maxsize c")
    case True
    have "lfu_inv (c\<lparr>lfu_items := store k v (lfu_items c)\<rparr>)"
      using assms(1) k True by (auto simp: lfu_inv_def store_keys store_length)
    then show ?thesis using False True assms(2)
      by (simp add: cache_setitem_def make_room_fits cache_contains_iff store_contains)
  next
    case notless: False
    with assms(1) have full: "length (lfu_items c) = lfu_maxsize c"
      by (simp add: lfu_inv_def)
    from make_room_full[OF assms(1) full assms(2)] obtain victim
      where m: "least_used (lfu_items c) = Some victim"
        and r: "make_room c = Inr (c\<lparr>lfu_items := remove1 victim (lfu_items c)\<rparr>)" by blast
    have mem: "victim \<in> set (lfu_items c)" using m by (rule least_used_mem)
    let ?es = "remove1 victim (lfu_items c)"
    have k': "k \<notin> fst ` set ?es" using k set_remove1_subset[of victim "lfu_items c"] by blast
    have d: "distinct (map fst ?es)"
      using assms(1) by (simp add: lfu_inv_def distinct_map_fst_remove1)
    have "lfu_inv (c\<lparr>lfu_items := store k v ?es\<rparr>)"
      using d k' mem full assms(2)
      by (auto simp: lfu_inv_def store_keys store_length length_remove1)
    then show ?thesis using False r assms(2)
      by (simp add: cache_setitem_def cache_contains_iff store_contains)
  qed
qed

lemma cache_setitem_evicts:
  assumes "lfu_inv c" "0 < lfu_maxsize c" "length (lfu_items c) = lfu_maxsize c"
      and "\<not> cache_contains c k"
  shows "\<exists>victim. victim \<in> set (lfu_items c)
           \<and> (\<forall>e \<in> set (lfu_items c). snd (snd victim) \<le> snd (snd e))
           \<and> cache_setitem c k v =
               Inr (c\<lparr>lfu_items := remove1 victim (lfu_items c) @ [(k, v, 1)]\<rparr>)"
proof -
  from make_room_full[OF assms(1,3,2)] obtain victim
    where m: "least_used (lfu_items c) = Some victim"
      and r: "make_room c = Inr (c\<lparr>lfu_items := remove1 victim (lfu_items c)\<rparr>)" by blast
  have mem: "victim \<in> set (lfu_items c)" using m by (rule least_used_mem)
  have k: "k \<notin> fst ` set (lfu_items c)"
    using assms(4) by (simp add: cache_contains_iff)
  then have k': "k \<notin> fst ` set (remove1 victim (lfu_items c))"
    using set_remove1_subset[of victim "lfu_items c"] by blast
  have "cache_setitem c k v =
          Inr (c\<lparr>lfu_items := remove1 victim (lfu_items c) @ [(k, v, 1)]\<rparr>)"
    using assms(2,4) r store_new[OF k'] by (simp add: cache_setitem_def)
  with mem least_used_min[OF m] show ?thesis by blast
qed

lemma cache_getitem_inv:
  assumes "lfu_inv c" "cache_getitem c k = Inr (v, c')"
  shows "lfu_inv c' \<and> lfu_maxsize c' = lfu_maxsize c"
  using assms
  by (auto simp: cache_getitem_def lfu_inv_def bump_keys bump_length split: option.splits)

lemma cache_setitem_contains:
  "cache_setitem c k v = Inr c' \<Longrightarrow> cache_contains c' k"
  by (auto simp: cache_setitem_def cache_contains_iff store_contains split: if_splits sum.splits)


text \<open>What a read and a store do to the use counts and the values.\<close>

lemma map_of_bump:
  "map_of (bump k es) k' =
     (if k' = k then (case map_of es k of None \<Rightarrow> None | Some (v, n) \<Rightarrow> Some (v, Suc n))
      else map_of es k')"
  by (induction k es rule: bump.induct) auto

lemma map_of_store:
  "map_of (store k v es) k' =
     (if k' = k then Some (v, case map_of es k of None \<Rightarrow> 1 | Some (v', n) \<Rightarrow> Suc n)
      else map_of es k')"
  by (induction k v es rule: store.induct) auto

lemma map_of_remove1:
  assumes "distinct (map fst es)" "victim \<in> set es"
  shows "map_of (remove1 victim es) k' = (if k' = fst victim then None else map_of es k')"
  using assms
proof (induction es)
  case Nil
  then show ?case by simp
next
  case (Cons e es)
  show ?case
  proof (cases "victim = e")
    case True
    with Cons.prems(1) have "fst e \<notin> fst ` set es" by simp
    then have "map_of es (fst e) = None" by (simp add: map_of_eq_None_iff)
    with True show ?thesis by (cases e) auto
  next
    case False
    with Cons.prems have v: "victim \<in> set es" and d: "distinct (map fst es)" by auto
    from v Cons.prems(1) have "fst victim \<noteq> fst e" by (auto simp: image_iff)
    with False Cons.IH[OF d v] show ?thesis by (cases e) auto
  qed
qed

lemma use_count_entry:
  assumes "distinct (map fst es)" "(k, v, n) \<in> set es"
  shows "map_of es k = Some (v, n)"
  using assms by simp

lemma cache_getitem_counts:
  assumes "cache_contains c k"
  shows "\<exists>v c'. cache_getitem c k = Inr (v, c') \<and> cached_value c k = Some v
           \<and> use_count c' k = use_count c k + 1
           \<and> (\<forall>k'. k' \<noteq> k \<longrightarrow> use_count c' k' = use_count c k')
           \<and> (\<forall>k'. cached_value c' k' = cached_value c k')
           \<and> lfu_maxsize c' = lfu_maxsize c
           \<and> map fst (lfu_items c') = map fst (lfu_items c)"
proof -
  from assms obtain v n where m: "map_of (lfu_items c) k = Some (v, n)"
    by (auto simp: cache_contains_def)
  let ?c' = "c\<lparr>lfu_items := bump k (lfu_items c)\<rparr>"
  have g: "cache_getitem c k = Inr (v, ?c')" using m by (simp add: cache_getitem_def)
  have "cached_value c k = Some v" using m by (simp add: cached_value_def)
  moreover have "use_count ?c' k = use_count c k + 1"
    using m by (simp add: use_count_def map_of_bump)
  moreover have "\<forall>k'. k' \<noteq> k \<longrightarrow> use_count ?c' k' = use_count c k'"
    by (simp add: use_count_def map_of_bump)
  moreover have "\<forall>k'. cached_value ?c' k' = cached_value c k'"
    using m by (simp add: cached_value_def map_of_bump)
  moreover have "map fst (lfu_items ?c') = map fst (lfu_items c)"
    by (simp add: bump_keys)
  ultimately show ?thesis using g by simp
qed

lemma store_counts:
  "use_count (c\<lparr>lfu_items := store k v (lfu_items c)\<rparr>) k = use_count c k + 1
   \<and> cached_value (c\<lparr>lfu_items := store k v (lfu_items c)\<rparr>) k = Some v
   \<and> (\<forall>k'. k' \<noteq> k \<longrightarrow>
         use_count (c\<lparr>lfu_items := store k v (lfu_items c)\<rparr>) k' = use_count c k'
         \<and> cached_value (c\<lparr>lfu_items := store k v (lfu_items c)\<rparr>) k' = cached_value c k')"
  by (simp add: use_count_def cached_value_def map_of_store split: option.splits)

lemma cache_setitem_counts:
  assumes "lfu_inv c" "0 < lfu_maxsize c"
  shows "\<exists>c'. cache_setitem c k v = Inr c'
           \<and> use_count c' k = use_count c k + 1 \<and> cached_value c' k = Some v
           \<and> (\<forall>k'. k' \<noteq> k \<and> cache_contains c' k' \<longrightarrow>
                 use_count c' k' = use_count c k' \<and> cached_value c' k' = cached_value c k')
           \<and> (cache_contains c k \<or> length (lfu_items c) < lfu_maxsize c \<longrightarrow>
                 (\<forall>k'. cache_contains c k' \<longrightarrow> cache_contains c' k'))"
proof (cases "cache_contains c k \<or> length (lfu_items c) < lfu_maxsize c")
  case True
  let ?c' = "c\<lparr>lfu_items := store k v (lfu_items c)\<rparr>"
  have s: "cache_setitem c k v = Inr ?c'"
    using True assms(2) by (auto simp: cache_setitem_def make_room_fits)
  have "\<forall>k'. cache_contains c k' \<longrightarrow> cache_contains ?c' k'"
    by (simp add: cache_contains_def map_of_store)
  with s store_counts[where c = c and k = k and v = v] show ?thesis by simp
next
  case False
  then have nk: "\<not> cache_contains c k" and full: "length (lfu_items c) = lfu_maxsize c"
    using assms(1) by (auto simp: lfu_inv_def)
  from make_room_full[OF assms(1) full assms(2)] obtain victim
    where m: "least_used (lfu_items c) = Some victim"
      and r: "make_room c = Inr (c\<lparr>lfu_items := remove1 victim (lfu_items c)\<rparr>)" by blast
  have mem: "victim \<in> set (lfu_items c)" using m by (rule least_used_mem)
  have d: "distinct (map fst (lfu_items c))" using assms(1) by (simp add: lfu_inv_def)
  let ?c1 = "c\<lparr>lfu_items := remove1 victim (lfu_items c)\<rparr>"
  let ?c' = "?c1\<lparr>lfu_items := store k v (lfu_items ?c1)\<rparr>"
  have s: "cache_setitem c k v = Inr ?c'"
    using nk r assms(2) by (simp add: cache_setitem_def)
  have k0: "map_of (lfu_items c) k = None" using nk unfolding cache_contains_def by blast
  have c1: "\<forall>k'. map_of (lfu_items ?c1) k' =
              (if k' = fst victim then None else map_of (lfu_items c) k')"
    using map_of_remove1[OF d mem] by simp
  have "use_count ?c1 k = use_count c k"
    using c1 k0 by (simp add: use_count_def)
  moreover have "\<forall>k'. cache_contains ?c1 k' \<longrightarrow>
      use_count ?c1 k' = use_count c k' \<and> cached_value ?c1 k' = cached_value c k'"
    using c1 by (simp add: use_count_def cached_value_def cache_contains_def)
  moreover have "\<forall>k'. k' \<noteq> k \<and> cache_contains ?c' k' \<longrightarrow> cache_contains ?c1 k'"
    by (simp add: cache_contains_def map_of_store)
  ultimately show ?thesis using s store_counts[where c = ?c1 and k = k and v = v] False by auto
qed

lemma victim_least_count:
  assumes "lfu_inv c" "victim \<in> set (lfu_items c)"
      and "\<forall>e \<in> set (lfu_items c). snd (snd victim) \<le> snd (snd e)"
  shows "use_count c (fst victim) = snd (snd victim)
         \<and> (\<forall>k'. cache_contains c k' \<longrightarrow> use_count c (fst victim) \<le> use_count c k')"
proof -
  have d: "distinct (map fst (lfu_items c))" using assms(1) by (simp add: lfu_inv_def)
  have v: "map_of (lfu_items c) (fst victim) = Some (snd victim)"
    using d assms(2) by (cases victim) simp
  then have 1: "use_count c (fst victim) = snd (snd victim)"
    by (cases "snd victim") (simp add: use_count_def)
  have "use_count c (fst victim) \<le> use_count c k'" if "cache_contains c k'" for k'
  proof -
    from that obtain v' n' where m: "map_of (lfu_items c) k' = Some (v', n')"
      by (auto simp: cache_contains_def)
    then have "(k', v', n') \<in> set (lfu_items c)" by (rule map_of_SomeD)
    with assms(3) have "snd (snd victim) \<le> n'" by auto
    with 1 m show ?thesis by (simp add: use_count_def)
  qed
  with 1 show ?thesis by blast
qed
section \<open>Properties of the pipeline\<close>

lemma get_or_create_indexes_frame:
  "sessions (snd (get_or_create_indexes env p st)) = sessions st
   \<and> query_cache (snd (get_or_create_indexes env p st)) = query_cache st"
  by (auto simp: get_or_create_indexes_def Let_def split: sum.splits prod.splits option.splits)

lemma get_or_create_indexes_pdf_cache:
  assumes "lfu_inv (pdf_cache st)" "0 < lfu_maxsize (pdf_cache st)"
  shows "lfu_inv (pdf_cache (snd (get_or_create_indexes env p st)))
         \<and> lfu_maxsize (pdf_cache (snd (get_or_create_indexes env p st))) = lfu_maxsize (pdf_cache st)"
proof (cases "cache_contains (pdf_cache st) p")
  case True
  then show ?thesis using assms(1) cache_getitem_inv[OF assms(1)]
    by (auto simp: get_or_create_indexes_def split: sum.splits prod.splits option.splits)
next
  case False
  show ?thesis
  proof (cases "print_error env (u ''Creating simple text index for '' @ p)")
    case (Some e)
    then show ?thesis using False assms(1)
      by (simp add: get_or_create_indexes_def)
  next
    case None
    show ?thesis
    proof (cases "load_pdf_chunks env p")
      case (Inl e)
      then show ?thesis using False None assms(1)
        by (simp add: get_or_create_indexes_def)
    next
      case (Inr chunks)
      from cache_setitem_inv[OF assms, of p "\<lparr>idx_texts = chunks, idx_pdf_path = p\<rparr>"]
      obtain c' where "cache_setitem (pdf_cache st) p \<lparr>idx_texts = chunks, idx_pdf_path = p\<rparr> = Inr c'"
        "lfu_inv c'" "lfu_maxsize c' = lfu_maxsize (pdf_cache st)" by blast
      then show ?thesis using False None Inr
        by (simp add: get_or_create_indexes_def Let_def)
    qed
  qed
qed

lemma get_memory_frame:
  "pdf_cache (snd (get_memory s st)) = pdf_cache st
   \<and> query_cache (snd (get_memory s st)) = query_cache st"
  by (simp add: get_memory_def split: option.splits)

lemma groq_attempt_cases:
  "(\<exists>e. groq_attempt env q c mt mi ht s ms = (Inl e, ms)
        \<and> (\<not> langchain_groq_importable env \<or> chatgroq_error env \<noteq> None))
   \<or> (\<exists>e. groq_attempt env q c mt mi ht s ms = (Inl e, history_append s (user_msg q) ms)
        \<and> langchain_groq_importable env \<and> chatgroq_error env = None
        \<and> llm_invoke env (prompt_template ht q c mt) = Inl e)
   \<or> (\<exists>a. groq_attempt env q c mt mi ht s ms =
          (Inr \<lparr>answer = a, metadata = mi\<rparr>,
           history_append s (assistant_msg a) (history_append s (user_msg q) ms))
        \<and> langchain_groq_importable env \<and> chatgroq_error env = None
        \<and> llm_invoke env (prompt_template ht q c mt) = Inr a)"
  by (cases "llm_invoke env (prompt_template ht q c mt)")
     (auto simp: groq_attempt_def Let_def user_msg_def assistant_msg_def
       split: option.splits simp del: u_simps)

lemma mock_response_eq:
  "mock_response q c mi s ms =
     (Inr \<lparr>answer = mock_answer q c, metadata = mi\<rparr>,
      snd (history_append s (assistant_msg (mock_answer q c)) (history_append s (user_msg q) ms)))"
  by (simp add: mock_response_def Let_def user_msg_def assistant_msg_def del: u_simps)

lemma generate_answer_no_key:
  assumes "\<not> key_set env"
  shows "generate_answer env q c mt mi ht s ms = mock_response q c mi s ms"
  using assms by (auto simp: generate_answer_def key_set_def)


lemma generate_answer_raised:
  assumes "key_set env"
      and "groq_attempt env q c mt mi ht s ms = (Inl e, pre)"
  shows "generate_answer env q c mt mi ht s ms =
           (case e of
              ImportError m \<Rightarrow> mock_response q c mi s pre
            | _ \<Rightarrow>
              (case print_error env
                      (u ''Groq API error: '' @ exn_str e @ u '', using mock response'') of
                 Some e' \<Rightarrow> (Inl e', snd pre)
               | None \<Rightarrow> mock_response q c mi s pre))"
  using assms by (cases e) (simp_all add: generate_answer_def key_set_def del: u_simps)


lemma generate_answer_llm_answers:
  assumes "key_set env" "langchain_groq_importable env" "chatgroq_error env = None"
      and "llm_invoke env (prompt_template ht q c mt) = Inr a"
  shows "generate_answer env q c mt mi ht s ms =
           (Inr \<lparr>answer = a, metadata = mi\<rparr>,
            snd (history_append s (assistant_msg a) (history_append s (user_msg q) ms)))"
  using assms groq_attempt_cases[of env q c mt mi ht s ms]
  by (auto simp: generate_answer_def key_set_def)

lemma generate_answer_cases:
  "(\<exists>a pre. generate_answer env q c mt mi ht s ms =
       (Inr \<lparr>answer = a, metadata = mi\<rparr>,
        snd (history_append s (assistant_msg a) (history_append s (user_msg q) pre)))
     \<and> (pre = ms \<or> pre = history_append s (user_msg q) ms))
   \<or> (\<exists>e pre. generate_answer env q c mt mi ht s ms = (Inl e, snd pre)
     \<and> (pre = ms \<or> pre = history_append s (user_msg q) ms))"
proof (cases "key_set env")
  case False
  then show ?thesis
    using generate_answer_no_key[OF False] mock_response_eq by metis
next
  case True
  obtain r pre where g: "groq_attempt env q c mt mi ht s ms = (r, pre)"
    by (cases "groq_attempt env q c mt mi ht s ms")
  show ?thesis
  proof (cases r)
    case (Inr res)
    with g groq_attempt_cases[of env q c mt mi ht s ms]
    obtain a where "llm_invoke env (prompt_template ht q c mt) = Inr a"
      "langchain_groq_importable env" "chatgroq_error env = None" by auto
    from generate_answer_llm_answers[OF True this(2,3,1)] show ?thesis by metis
  next
    case (Inl e)
    with g groq_attempt_cases[of env q c mt mi ht s ms]
    have pre: "pre = ms \<or> pre = history_append s (user_msg q) ms" by auto
    let ?m = "print_error env (u ''Groq API error: '' @ exn_str e @ u '', using mock response'')"
    have "generate_answer env q c mt mi ht s ms = mock_response q c mi s pre
          \<or> (\<exists>e'. generate_answer env q c mt mi ht s ms = (Inl e', snd pre))"
      using generate_answer_raised[OF True g[unfolded Inl]]
      by (cases e; cases ?m) (simp_all del: u_simps)
    with pre mock_response_eq show ?thesis by metis
  qed
qed

lemma cache_getitem_hit:
  assumes "cache_contains c k"
  shows "\<exists>v n. map_of (lfu_items c) k = Some (v, n)
           \<and> cache_getitem c k = Inr (v, c\<lparr>lfu_items := bump k (lfu_items c)\<rparr>)"
proof -
  from assms obtain vn where "map_of (lfu_items c) k = Some vn"
    by (auto simp: cache_contains_def)
  then show ?thesis by (cases vn) (simp add: cache_getitem_def)
qed

lemma get_or_create_indexes_Inl:
  assumes "get_or_create_indexes env p st = (Inl e, st1)"
  shows "st1 = st"
  using assms cache_getitem_hit[of "pdf_cache st" p]
  by (auto simp: get_or_create_indexes_def Let_def
      split: if_splits sum.splits prod.splits option.splits)



lemma extract_relevant_clause_cases:
  "(\<exists>e. get_or_create_indexes env p st = (Inl e, st)
        \<and> extract_relevant_clause env p q k st = (Inl e, st))
   \<or> (\<exists>idx st1 ctx mi. get_or_create_indexes env p st = (Inr idx, st1)
        \<and> extract_relevant_clause env p q k st = (Inr (ctx, mi), st1))"
proof (cases "get_or_create_indexes env p st")
  case (Pair r st1)
  show ?thesis
  proof (cases r)
    case (Inl e)
    with Pair have "st1 = st" using get_or_create_indexes_Inl by blast
    then show ?thesis using Pair Inl by (simp add: extract_relevant_clause_def)
  next
    case (Inr idx)
    then show ?thesis using Pair
      by (auto simp: extract_relevant_clause_def Let_def)
  qed
qed

lemma run_full_pipeline_func_cases:
  "(\<exists>e. get_or_create_indexes env p st = (Inl e, st)
        \<and> run_full_pipeline_func env q p s st = (Inl e, st))
   \<or> (\<exists>idx st1 mi a pre. get_or_create_indexes env p st = (Inr idx, st1)
        \<and> run_full_pipeline_func env q p s st =
            (Inr \<lparr>answer = a, metadata = mi\<rparr>,
             snd (history_append s (assistant_msg a) (history_append s (user_msg q) pre)))
        \<and> (pre = get_memory s st1 \<or> pre = history_append s (user_msg q) (get_memory s st1)))
   \<or> (\<exists>idx st1 e pre. get_or_create_indexes env p st = (Inr idx, st1)
        \<and> run_full_pipeline_func env q p s st = (Inl e, snd pre)
        \<and> (pre = get_memory s st1 \<or> pre = history_append s (user_msg q) (get_memory s st1)))"
  using extract_relevant_clause_cases[of env p st q 10]
proof (elim disjE exE conjE)
  fix e
  assume "get_or_create_indexes env p st = (Inl e, st)"
    and "extract_relevant_clause env p q 10 st = (Inl e, st)"
  then show ?thesis by (simp add: run_full_pipeline_func_def)
next
  fix idx st1 ctx mi
  assume g: "get_or_create_indexes env p st = (Inr idx, st1)"
    and x: "extract_relevant_clause env p q 10 st = (Inr (ctx, mi), st1)"
  let ?joined = "join [10]
                 (map (\<lambda>m. u ''- Source: '' @ md_pdf_name m @ u '', Page: '' @ md_page m) mi)"
  let ?mt = "if ?joined = [] then u ''No metadata available.'' else ?joined"
  let ?ms = "get_memory s st1"
  let ?ht = "format_history (history (fst ?ms))"
  have r: "run_full_pipeline_func env q p s st = generate_answer env q ctx ?mt mi ?ht s ?ms"
    using x by (simp add: run_full_pipeline_func_def Let_def del: u_simps)
  from generate_answer_cases[of env q ctx ?mt mi ?ht s ?ms] r g
  show ?thesis by (metis (no_types, lifting))
qed

lemma get_memory_props:
  "sessions (snd (get_memory s st)) s = Some (fst (get_memory s st))
   \<and> history (fst (get_memory s st)) = session_history st s
   \<and> (\<forall>s'. s' \<noteq> s \<longrightarrow> sessions (snd (get_memory s st)) s' = sessions st s')"
  by (simp add: get_memory_def session_history_def empty_memory_def split: option.splits)

lemma appended_props:
  "session_history (snd (history_append s b (history_append s a pre))) s
     = history (fst pre) @ [a, b]
   \<and> (\<forall>s'. s' \<noteq> s \<longrightarrow>
         sessions (snd (history_append s b (history_append s a pre))) s' = sessions (snd pre) s')
   \<and> pdf_cache (snd (history_append s b (history_append s a pre))) = pdf_cache (snd pre)
   \<and> query_cache (snd (history_append s b (history_append s a pre))) = query_cache (snd pre)"
  by (simp add: history_append_def Let_def session_history_def)

lemma appended_once_props:
  "history (fst (history_append s a pre)) = history (fst pre) @ [a]
   \<and> (\<forall>s'. s' \<noteq> s \<longrightarrow> sessions (snd (history_append s a pre)) s' = sessions (snd pre) s')
   \<and> pdf_cache (snd (history_append s a pre)) = pdf_cache (snd pre)
   \<and> query_cache (snd (history_append s a pre)) = query_cache (snd pre)"
  by (simp add: history_append_def Let_def)

lemma run_full_pipeline_func_Inr:
  assumes "run_full_pipeline_func env q p s st = (Inr res, st')"
  shows "(session_history st' s = session_history st s @ [user_msg q, assistant_msg (answer res)]
          \<or> session_history st' s =
              session_history st s @ [user_msg q, user_msg q, assistant_msg (answer res)])
         \<and> (\<forall>s'. s' \<noteq> s \<longrightarrow> sessions st' s' = sessions st s')
         \<and> query_cache st' = query_cache st
         \<and> pdf_cache st' = pdf_cache (snd (get_or_create_indexes env p st))"
proof -
  have "\<not> (\<exists>e st''. run_full_pipeline_func env q p s st = (Inl e, st''))"
    using assms by simp
  with run_full_pipeline_func_cases[of env p st q s]
  obtain idx st1 mi a pre where g: "get_or_create_indexes env p st = (Inr idx, st1)"
    and r: "run_full_pipeline_func env q p s st =
            (Inr \<lparr>answer = a, metadata = mi\<rparr>,
             snd (history_append s (assistant_msg a) (history_append s (user_msg q) pre)))"
    and pre: "pre = get_memory s st1 \<or> pre = history_append s (user_msg q) (get_memory s st1)"
    by blast
  from r assms have a: "answer res = a"
    and st': "st' = snd (history_append s (assistant_msg a) (history_append s (user_msg q) pre))"
    by auto
  have fr: "sessions st1 = sessions st" "query_cache st1 = query_cache st"
    using get_or_create_indexes_frame[of env p st] g by simp_all
  have sh: "session_history st1 s = session_history st s"
    using fr(1) by (simp add: session_history_def)
  note gm = get_memory_props[of s st1] get_memory_frame[of s st1]
  note ap = appended_props[of s "assistant_msg a" "user_msg q" pre]
  from pre show ?thesis
  proof (rule disjE)
    assume p1: "pre = get_memory s st1"
    show ?thesis
      using ap gm fr sh g unfolding st' a p1 by simp
  next
    assume p2: "pre = history_append s (user_msg q) (get_memory s st1)"
    note once = appended_once_props[of s "user_msg q" "get_memory s st1"]
    show ?thesis
      using ap gm fr sh g once unfolding st' a p2 by simp
  qed
qed

lemma run_full_pipeline_func_Inl:
  assumes "run_full_pipeline_func env q p s st = (Inl e, st')"
  shows "query_cache st' = query_cache st
         \<and> pdf_cache st' = pdf_cache (snd (get_or_create_indexes env p st))"
proof -
  from run_full_pipeline_func_cases[of env p st q s]
  consider (idx) e0 where "get_or_create_indexes env p st = (Inl e0, st)"
        "run_full_pipeline_func env q p s st = (Inl e0, st)"
    | (res) mi a st'' where "run_full_pipeline_func env q p s st =
            (Inr \<lparr>answer = a, metadata = mi\<rparr>, st'')"
    | (gen) idx st1 e0 pre where "get_or_create_indexes env p st = (Inr idx, st1)"
        "run_full_pipeline_func env q p s st = (Inl e0, snd pre)"
        "pre = get_memory s st1 \<or> pre = history_append s (user_msg q) (get_memory s st1)"
    by blast
  then show ?thesis
  proof cases
    case idx
    with assms have "st' = st" by simp
    with idx(1) show ?thesis by simp
  next
    case res
    with assms show ?thesis by simp
  next
    case gen
    from gen(2) assms have st': "st' = snd pre" by simp
    have fr: "query_cache st1 = query_cache st"
      using get_or_create_indexes_frame[of env p st] gen(1) by simp
    note gm = get_memory_frame[of s st1]
    note once = appended_once_props[of s "user_msg q" "get_memory s st1"]
    from gen(3) show ?thesis
      using gm once fr gen(1) unfolding st' by auto
  qed
qed

lemma run_full_pipeline_func_caches_ok:
  assumes "caches_ok st"
  shows "caches_ok (snd (run_full_pipeline_func env q p s st))"
proof -
  have pc: "lfu_inv (pdf_cache st)" "0 < lfu_maxsize (pdf_cache st)"
    using assms by (simp_all add: caches_ok_def)
  note g = get_or_create_indexes_pdf_cache[OF pc, of env p]
       get_or_create_indexes_frame[of env p st]
  obtain r st' where rs: "run_full_pipeline_func env q p s st = (r, st')"
    by (cases "run_full_pipeline_func env q p s st")
  show ?thesis
  proof (cases r)
    case (Inl e)
    from run_full_pipeline_func_Inl[OF rs[unfolded Inl]] g assms
    show ?thesis using rs by (simp add: caches_ok_def)
  next
    case (Inr res)
    from run_full_pipeline_func_Inr[OF rs[unfolded Inr]] g assms
    show ?thesis using rs by (simp add: caches_ok_def)
  qed
qed

lemma run_full_pipeline_hit:
  assumes "cache_contains (query_cache st) (q, p, s)"
  shows "\<exists>v n. map_of (lfu_items (query_cache st)) (q, p, s) = Some (v, n)
           \<and> run_full_pipeline env q p s st =
               (Inr v, st\<lparr>query_cache :=
                  (query_cache st)\<lparr>lfu_items := bump (q, p, s) (lfu_items (query_cache st))\<rparr>\<rparr>)"
  using cache_getitem_hit[OF assms] assms
  by (auto simp: run_full_pipeline_def cache_query_def)

lemma run_full_pipeline_miss:
  assumes "\<not> cache_contains (query_cache st) (q, p, s)"
      and "run_full_pipeline env q p s st = (Inr res, st')"
  shows "\<exists>st1 c. run_full_pipeline_func env q p s st = (Inr res, st1)
           \<and> cache_setitem (query_cache st1) (q, p, s) res = Inr c
           \<and> st' = st1\<lparr>query_cache := c\<rparr>"
  using assms
  by (auto simp: run_full_pipeline_def cache_query_def split: prod.splits sum.splits)

lemma run_full_pipeline_caches_ok:
  assumes "caches_ok st"
  shows "caches_ok (snd (run_full_pipeline env q p s st))"
proof (cases "cache_contains (query_cache st) (q, p, s)")
  case True
  from run_full_pipeline_hit[OF True, of env] obtain v n
    where "run_full_pipeline env q p s st =
               (Inr v, st\<lparr>query_cache :=
                  (query_cache st)\<lparr>lfu_items := bump (q, p, s) (lfu_items (query_cache st))\<rparr>\<rparr>)"
    by blast
  then show ?thesis using assms
    by (simp add: caches_ok_def lfu_inv_def bump_keys bump_length)
next
  case False
  obtain r st1 where rs: "run_full_pipeline_func env q p s st = (r, st1)"
    by (cases "run_full_pipeline_func env q p s st")
  have ok1: "caches_ok st1"
    using run_full_pipeline_func_caches_ok[OF assms, of env q p s] rs by simp
  show ?thesis
  proof (cases r)
    case (Inl e)
    then show ?thesis using False rs ok1
      by (simp add: run_full_pipeline_def cache_query_def)
  next
    case (Inr res)
    have qc: "lfu_inv (query_cache st1)" "0 < lfu_maxsize (query_cache st1)"
      using ok1 by (simp_all add: caches_ok_def)
    from cache_setitem_inv[OF qc, of "(q, p, s)" res] obtain c'
      where "cache_setitem (query_cache st1) (q, p, s) res = Inr c'" "lfu_inv c'"
        "lfu_maxsize c' = lfu_maxsize (query_cache st1)" by blast
    then show ?thesis using False rs Inr ok1
      by (simp add: run_full_pipeline_def cache_query_def caches_ok_def)
  qed
qed

text \<open>Two runs of the pipeline from the initial state, evaluated.\<close>

lemmas pipeline_defs =
  run_full_pipeline_def cache_query_def run_full_pipeline_func_def generate_answer_def
  mock_response_def extract_relevant_clause_def get_or_create_indexes_def load_pdf_chunks_def
  cache_contains_def cache_getitem_def cache_setitem_def make_room.simps popitem_def
  get_memory_def history_append_def empty_memory_def initial_state_def LFUCache_def
  format_history_def Let_def

lemma first_call:
  "run_full_pipeline sample_env (u ''pdf tax'') (u ''/tmp/tmpab.pdf'') (u ''alice'') initial_state
   = (Inr \<lparr>answer = mock_answer (u ''pdf tax'') (u ''Tax rules for PDF''),
            metadata = [\<lparr>md_content = u ''Tax rules for PDF'', md_pdf_name = u ''tmpab.pdf'',
                         md_page = u ''Page 1'', md_score = 1\<rparr>]\<rparr>,
      \<lparr>pdf_cache = \<lparr>lfu_maxsize = 10, lfu_items =
          [(u ''/tmp/tmpab.pdf'',
            \<lparr>idx_texts = [u ''Tax rules for PDF'', [], u ''Nothing here''],
             idx_pdf_path = u ''/tmp/tmpab.pdf''\<rparr>, 1)]\<rparr>,
       query_cache = \<lparr>lfu_maxsize = 100, lfu_items =
          [((u ''pdf tax'', u ''/tmp/tmpab.pdf'', u ''alice''),
            \<lparr>answer = mock_answer (u ''pdf tax'') (u ''Tax rules for PDF''),
             metadata = [\<lparr>md_content = u ''Tax rules for PDF'', md_pdf_name = u ''tmpab.pdf'',
                         md_page = u ''Page 1'', md_score = 1\<rparr>]\<rparr>, 1)]\<rparr>,
       sessions = [u ''alice'' \<mapsto>
          \<lparr>history = [user_msg (u ''pdf tax''),
                      assistant_msg (mock_answer (u ''pdf tax'') (u ''Tax rules for PDF''))],
           messages = []\<rparr>]\<rparr>)"
  by (simp add: pipeline_defs sample_env_def simple_text_search_def split_def ascii_lower_def
      isspace_def score_def sort_reverse_def slice_to_def basename_def str_nat.simps
      user_msg_def assistant_msg_def utf8_stdout_def)






lemma strip_hd_not_space:
  assumes "strip s \<noteq> []"
  shows "\<not> isspace (hd (strip s))"
proof -
  let ?d = "dropWhile isspace s"
  have d: "?d \<noteq> []"
  proof
    assume e: "?d = []"
    have "strip s = []" unfolding strip_def e by simp
    with assms show False by simp
  qed
  then obtain x d' where xd: "?d = x # d'" by (cases ?d) auto
  have nx: "\<not> isspace x" using hd_dropWhile[OF d] xd by simp
  have "dropWhile isspace (rev d' @ [x]) = dropWhile isspace (rev d') @ [x]"
    using nx by (simp add: dropWhile_append3 dropWhile_append)
  then have "strip s = x # rev (dropWhile isspace (rev d'))"
    using xd by (simp add: strip_def)
  with nx show ?thesis by simp
qed

lemma mock_answer_starts_with_newline: "\<exists>rest. mock_answer q c = 10 # rest"
  by (simp add: mock_answer_def)

lemma endpoint_answer_is_not_pipeline_answer:
  "strip (query_mock_answer question pdf_id session_id) \<noteq> mock_answer q c"
proof
  assume eq: "strip (query_mock_answer question pdf_id session_id) = mock_answer q c"
  from mock_answer_starts_with_newline obtain rest where m: "mock_answer q c = 10 # rest"
    by blast
  with eq have "strip (query_mock_answer question pdf_id session_id) \<noteq> []"
    and "hd (strip (query_mock_answer question pdf_id session_id)) = 10" by simp_all
  with strip_hd_not_space[of "query_mock_answer question pdf_id session_id"]
  have "\<not> isspace 10" by simp
  then show False by (simp add: isspace_def)
qed

section \<open>The claims about the caches, the memory and the pipeline\<close>

text \<open>
  Claim C5: the PDF-index cache and the answer cache start empty with capacities 10
  and 100 (keyed by the PDF path, and by the tuple of query, PDF path and session id:
  the types of \<open>pipeline_state\<close>). Every call of the pipeline keeps both within
  their capacity. Every insertion into a cache succeeds, keeps the capacity, leaves
  at most \<open>maxsize\<close> entries, stores the value, raises the use count of its key by
  one (to 1 for a new key), and leaves the count and value of every other key it keeps;
  it keeps every key when the key is held already or the cache is not full. An
  insertion of a new key into a full cache removes one entry, whose use count is least
  among the keys of the cache, and appends the new one with count 1. A read of a key
  returns its value, raises the use count of that key by one, and changes no other
  count, no value, and neither the keys nor the capacity. The pipeline reads the
  answer cache on a hit, and the PDF-index cache when the PDF is indexed already, so
  each such use counts.
\<close>

theorem C5_lfu_caches:
  "caches_ok initial_state
   \<and> (caches_ok st \<longrightarrow>
        caches_ok (snd (run_full_pipeline env user_query pdf_path session_id st))
        \<and> length (lfu_items (pdf_cache st)) \<le> 10
        \<and> length (lfu_items (query_cache st)) \<le> 100)
   \<and> (lfu_inv c \<and> 0 < lfu_maxsize c \<longrightarrow>
        (\<exists>c'. cache_setitem c k v = Inr c' \<and> length (lfu_items c') \<le> lfu_maxsize c'
              \<and> lfu_maxsize c' = lfu_maxsize c \<and> lfu_inv c' \<and> cache_contains c' k
              \<and> use_count c' k = use_count c k + 1 \<and> cached_value c' k = Some v
              \<and> (\<forall>k'. k' \<noteq> k \<and> cache_contains c' k' \<longrightarrow>
                    use_count c' k' = use_count c k' \<and> cached_value c' k' = cached_value c k')
              \<and> (cache_contains c k \<or> length (lfu_items c) < lfu_maxsize c \<longrightarrow>
                    (\<forall>k'. cache_contains c k' \<longrightarrow> cache_contains c' k'))))
   \<and> (lfu_inv c \<and> 0 < lfu_maxsize c \<and> length (lfu_items c) = lfu_maxsize c
        \<and> \<not> cache_contains c k \<longrightarrow>
        (\<exists>victim. victim \<in> set (lfu_items c)
           \<and> (\<forall>e \<in> set (lfu_items c). snd (snd victim) \<le> snd (snd e))
           \<and> use_count c (fst victim) = snd (snd victim)
           \<and> (\<forall>k'. cache_contains c k' \<longrightarrow> use_count c (fst victim) \<le> use_count c k')
           \<and> cache_setitem c k v =
               Inr (c\<lparr>lfu_items := remove1 victim (lfu_items c) @ [(k, v, 1)]\<rparr>)))
   \<and> (cache_contains c k \<longrightarrow>
        (\<exists>v' c'. cache_getitem c k = Inr (v', c') \<and> cached_value c k = Some v'
           \<and> use_count c' k = use_count c k + 1
           \<and> (\<forall>k'. k' \<noteq> k \<longrightarrow> use_count c' k' = use_count c k')
           \<and> (\<forall>k'. cached_value c' k' = cached_value c k')
           \<and> lfu_maxsize c' = lfu_maxsize c
           \<and> map fst (lfu_items c') = map fst (lfu_items c)))
   \<and> (cache_contains (query_cache st) (user_query, pdf_path, session_id) \<longrightarrow>
        use_count (query_cache (snd (run_full_pipeline env user_query pdf_path session_id st)))
            (user_query, pdf_path, session_id)
          = use_count (query_cache st) (user_query, pdf_path, session_id) + 1)
   \<and> (cache_contains (pdf_cache st) pdf_path
        \<and> print_error env (u ''Using cached indexes for '' @ pdf_path) = None \<longrightarrow>
        use_count (pdf_cache (snd (get_or_create_indexes env pdf_path st))) pdf_path
          = use_count (pdf_cache st) pdf_path + 1)"
proof (intro conjI impI)
  show "caches_ok initial_state"
    by (simp add: caches_ok_def lfu_inv_def initial_state_def LFUCache_def)
next
  assume "caches_ok st"
  then show "caches_ok (snd (run_full_pipeline env user_query pdf_path session_id st))"
    by (rule run_full_pipeline_caches_ok)
next
  assume "caches_ok st"
  then show "length (lfu_items (pdf_cache st)) \<le> 10"
    by (simp add: caches_ok_def lfu_inv_def)
next
  assume "caches_ok st"
  then show "length (lfu_items (query_cache st)) \<le> 100"
    by (simp add: caches_ok_def lfu_inv_def)
next
  assume a: "lfu_inv c \<and> 0 < lfu_maxsize c"
  then obtain c' where s: "cache_setitem c k v = Inr c'" and i: "lfu_inv c'"
      "lfu_maxsize c' = lfu_maxsize c" "cache_contains c' k"
    using cache_setitem_inv[of c k v] by blast
  from a cache_setitem_counts[of c k v] s
  have "use_count c' k = use_count c k + 1 \<and> cached_value c' k = Some v
        \<and> (\<forall>k'. k' \<noteq> k \<and> cache_contains c' k' \<longrightarrow>
              use_count c' k' = use_count c k' \<and> cached_value c' k' = cached_value c k')
        \<and> (cache_contains c k \<or> length (lfu_items c) < lfu_maxsize c \<longrightarrow>
              (\<forall>k'. cache_contains c k' \<longrightarrow> cache_contains c' k'))"
    by auto
  with s i have "cache_setitem c k v = Inr c' \<and> length (lfu_items c') \<le> lfu_maxsize c'
              \<and> lfu_maxsize c' = lfu_maxsize c \<and> lfu_inv c' \<and> cache_contains c' k
              \<and> use_count c' k = use_count c k + 1 \<and> cached_value c' k = Some v
              \<and> (\<forall>k'. k' \<noteq> k \<and> cache_contains c' k' \<longrightarrow>
                    use_count c' k' = use_count c k' \<and> cached_value c' k' = cached_value c k')
              \<and> (cache_contains c k \<or> length (lfu_items c) < lfu_maxsize c \<longrightarrow>
                    (\<forall>k'. cache_contains c k' \<longrightarrow> cache_contains c' k'))"
    by (simp add: lfu_inv_def)
  then show "\<exists>c'. cache_setitem c k v = Inr c' \<and> length (lfu_items c') \<le> lfu_maxsize c'
              \<and> lfu_maxsize c' = lfu_maxsize c \<and> lfu_inv c' \<and> cache_contains c' k
              \<and> use_count c' k = use_count c k + 1 \<and> cached_value c' k = Some v
              \<and> (\<forall>k'. k' \<noteq> k \<and> cache_contains c' k' \<longrightarrow>
                    use_count c' k' = use_count c k' \<and> cached_value c' k' = cached_value c k')
              \<and> (cache_contains c k \<or> length (lfu_items c) < lfu_maxsize c \<longrightarrow>
                    (\<forall>k'. cache_contains c k' \<longrightarrow> cache_contains c' k'))"
    by (rule exI)
next
  assume a: "lfu_inv c \<and> 0 < lfu_maxsize c \<and> length (lfu_items c) = lfu_maxsize c
        \<and> \<not> cache_contains c k"
  then have a4: "lfu_inv c" "0 < lfu_maxsize c" "length (lfu_items c) = lfu_maxsize c"
      "\<not> cache_contains c k" by simp_all
  from cache_setitem_evicts[OF a4, of v] obtain victim
    where m: "victim \<in> set (lfu_items c)"
      and l: "\<forall>e \<in> set (lfu_items c). snd (snd victim) \<le> snd (snd e)"
      and s: "cache_setitem c k v =
               Inr (c\<lparr>lfu_items := remove1 victim (lfu_items c) @ [(k, v, 1)]\<rparr>)"
    by blast
  from a have "lfu_inv c" by simp
  from victim_least_count[OF this m l] m l s
  show "\<exists>victim. victim \<in> set (lfu_items c)
           \<and> (\<forall>e \<in> set (lfu_items c). snd (snd victim) \<le> snd (snd e))
           \<and> use_count c (fst victim) = snd (snd victim)
           \<and> (\<forall>k'. cache_contains c k' \<longrightarrow> use_count c (fst victim) \<le> use_count c k')
           \<and> cache_setitem c k v =
               Inr (c\<lparr>lfu_items := remove1 victim (lfu_items c) @ [(k, v, 1)]\<rparr>)"
    by blast
next
  assume "cache_contains c k"
  then show "\<exists>v' c'. cache_getitem c k = Inr (v', c') \<and> cached_value c k = Some v'
           \<and> use_count c' k = use_count c k + 1
           \<and> (\<forall>k'. k' \<noteq> k \<longrightarrow> use_count c' k' = use_count c k')
           \<and> (\<forall>k'. cached_value c' k' = cached_value c k')
           \<and> lfu_maxsize c' = lfu_maxsize c
           \<and> map fst (lfu_items c') = map fst (lfu_items c)"
    by (rule cache_getitem_counts)
next
  assume h: "cache_contains (query_cache st) (user_query, pdf_path, session_id)"
  from run_full_pipeline_hit[OF h, of env] obtain v0 n0
    where m: "map_of (lfu_items (query_cache st)) (user_query, pdf_path, session_id)
                = Some (v0, n0)"
      and r: "run_full_pipeline env user_query pdf_path session_id st =
               (Inr v0, st\<lparr>query_cache := (query_cache st)\<lparr>lfu_items :=
                  bump (user_query, pdf_path, session_id) (lfu_items (query_cache st))\<rparr>\<rparr>)"
    by blast
  show "use_count (query_cache (snd (run_full_pipeline env user_query pdf_path session_id st)))
            (user_query, pdf_path, session_id)
          = use_count (query_cache st) (user_query, pdf_path, session_id) + 1"
    unfolding r using m by (simp add: use_count_def map_of_bump)
next
  assume h: "cache_contains (pdf_cache st) pdf_path
        \<and> print_error env (u ''Using cached indexes for '' @ pdf_path) = None"
  from h cache_getitem_hit[of "pdf_cache st" pdf_path] obtain v0 n0
    where m: "map_of (lfu_items (pdf_cache st)) pdf_path = Some (v0, n0)"
      and g: "cache_getitem (pdf_cache st) pdf_path =
                Inr (v0, (pdf_cache st)\<lparr>lfu_items := bump pdf_path (lfu_items (pdf_cache st))\<rparr>)"
    by blast
  have "get_or_create_indexes env pdf_path st =
          (Inr v0, st\<lparr>pdf_cache :=
             (pdf_cache st)\<lparr>lfu_items := bump pdf_path (lfu_items (pdf_cache st))\<rparr>\<rparr>)"
    using h g by (simp add: get_or_create_indexes_def del: u_simps)
  then show "use_count (pdf_cache (snd (get_or_create_indexes env pdf_path st))) pdf_path
          = use_count (pdf_cache st) pdf_path + 1"
    using m by (simp add: use_count_def map_of_bump)
qed

theorem C5_lfu_caches_witness:
  "cache_getitem small_cache (u ''a.pdf'') =
     Inr (u ''A'',
          \<lparr>lfu_maxsize = 2, lfu_items = [(u ''a.pdf'', u ''A'', 2), (u ''b.pdf'', u ''B'', 1)]\<rparr>)
   \<and> use_count small_cache (u ''a.pdf'') = 1
   \<and> use_count
        \<lparr>lfu_maxsize = 2, lfu_items = [(u ''a.pdf'', u ''A'', 2), (u ''b.pdf'', u ''B'', 1)]\<rparr>
        (u ''a.pdf'') = 2
   \<and> cache_setitem
        \<lparr>lfu_maxsize = 2, lfu_items = [(u ''a.pdf'', u ''A'', 2), (u ''b.pdf'', u ''B'', 1)]\<rparr>
        (u ''c.pdf'') (u ''C'') =
     Inr \<lparr>lfu_maxsize = 2, lfu_items = [(u ''a.pdf'', u ''A'', 2), (u ''c.pdf'', u ''C'', 1)]\<rparr>
   \<and> caches_ok (snd (run_full_pipeline sample_env (u ''pdf tax'') (u ''/tmp/tmpab.pdf'')
                        (u ''alice'') initial_state))"
proof -
  let ?r = "\<lparr>lfu_maxsize = 2,
             lfu_items = [(u ''a.pdf'', u ''A'', 2), (u ''b.pdf'', u ''B'', (1::nat))]\<rparr>"
  note t = C5_lfu_caches[where st = initial_state and env = sample_env
      and user_query = "u ''pdf tax''" and pdf_path = "u ''/tmp/tmpab.pdf''"
      and session_id = "u ''alice''" and c = ?r and k = "u ''c.pdf''" and v = "u ''C''"]
  note t0 = C5_lfu_caches[where st = initial_state and env = sample_env
      and user_query = "u ''pdf tax''" and pdf_path = "u ''/tmp/tmpab.pdf''"
      and session_id = "u ''alice''" and c = small_cache and k = "u ''a.pdf''"
      and v = "u ''A''"]
  have g: "cache_getitem small_cache (u ''a.pdf'') = Inr (u ''A'', ?r)"
    by (simp add: small_cache_def cache_getitem_def)
  have u0: "use_count small_cache (u ''a.pdf'') = 1"
    by (simp add: small_cache_def use_count_def)
  have h: "cache_contains small_cache (u ''a.pdf'')"
    by (simp add: small_cache_def cache_contains_def)
  from t0 h obtain v' c' where g': "cache_getitem small_cache (u ''a.pdf'') = Inr (v', c')"
    and u1: "use_count c' (u ''a.pdf'') = use_count small_cache (u ''a.pdf'') + 1"
    by blast
  from g g' have "c' = ?r" by (simp del: u_simps)
  with u1 u0 have u2: "use_count ?r (u ''a.pdf'') = 2" by (simp del: u_simps)
  have pre: "lfu_inv ?r \<and> 0 < lfu_maxsize ?r \<and> length (lfu_items ?r) = lfu_maxsize ?r
      \<and> \<not> cache_contains ?r (u ''c.pdf'')"
    by (simp add: lfu_inv_def cache_contains_def)
  from t pre obtain victim where vm: "victim \<in> set (lfu_items ?r)"
    and m: "\<forall>e \<in> set (lfu_items ?r). snd (snd victim) \<le> snd (snd e)"
    and r: "cache_setitem ?r (u ''c.pdf'') (u ''C'') =
              Inr (?r\<lparr>lfu_items := remove1 victim (lfu_items ?r) @ [(u ''c.pdf'', u ''C'', 1)]\<rparr>)"
    by blast
  from vm m have "victim = (u ''b.pdf'', u ''B'', 1)"
    by auto
  with r have 1: "cache_setitem ?r (u ''c.pdf'') (u ''C'') =
     Inr \<lparr>lfu_maxsize = 2, lfu_items = [(u ''a.pdf'', u ''A'', 2), (u ''c.pdf'', u ''C'', 1)]\<rparr>"
    by simp
  from t have 2: "caches_ok (snd (run_full_pipeline sample_env (u ''pdf tax'') (u ''/tmp/tmpab.pdf'')
                        (u ''alice'') initial_state))"
    by blast
  from g u0 u2 1 2 show ?thesis by (intro conjI)
qed

text \<open>
  Claim C6: after \<open>reset_memory\<close> for a session id, the memory of that session is
  empty lists of history and messages: a session that had memory holds empty lists, a
  session that had none still has none, and in both cases \<open>get_memory\<close> gives the empty
  memory. The memory of every other session id, and both caches, are as they were.
\<close>

theorem C6_reset_memory:
  "(sessions st session_id \<noteq> None \<longrightarrow>
      sessions (reset_memory session_id st) session_id = Some \<lparr>history = [], messages = []\<rparr>)
   \<and> (sessions st session_id = None \<longrightarrow> sessions (reset_memory session_id st) session_id = None)
   \<and> fst (get_memory session_id (reset_memory session_id st)) = \<lparr>history = [], messages = []\<rparr>
   \<and> (\<forall>other. other \<noteq> session_id \<longrightarrow>
         sessions (reset_memory session_id st) other = sessions st other)
   \<and> pdf_cache (reset_memory session_id st) = pdf_cache st
   \<and> query_cache (reset_memory session_id st) = query_cache st"
  by (simp add: reset_memory_def get_memory_def empty_memory_def)

theorem C6_reset_memory_witness:
  "sessions (reset_memory (u ''alice'') two_sessions) (u ''alice'')
     = Some \<lparr>history = [], messages = []\<rparr>
   \<and> sessions (reset_memory (u ''alice'') two_sessions) (u ''bob'')
     = Some \<lparr>history = [user_msg (u ''tax?'')], messages = []\<rparr>
   \<and> sessions (reset_memory (u ''carol'') two_sessions) (u ''carol'') = None
   \<and> fst (get_memory (u ''carol'') (reset_memory (u ''carol'') two_sessions))
     = \<lparr>history = [], messages = []\<rparr>"
proof -
  have a: "sessions two_sessions (u ''alice'') \<noteq> None"
    and b: "sessions two_sessions (u ''bob'') = Some \<lparr>history = [user_msg (u ''tax?'')], messages = []\<rparr>"
    and c: "sessions two_sessions (u ''carol'') = None"
    and ne: "u ''bob'' \<noteq> u ''alice''"
    by (simp_all add: two_sessions_def)
  from C6_reset_memory[of two_sessions "u ''alice''"] a
  have 1: "sessions (reset_memory (u ''alice'') two_sessions) (u ''alice'')
     = Some \<lparr>history = [], messages = []\<rparr>" by blast
  from C6_reset_memory[of two_sessions "u ''alice''"] ne
  have "sessions (reset_memory (u ''alice'') two_sessions) (u ''bob'') = sessions two_sessions (u ''bob'')"
    by blast
  with b have 2: "sessions (reset_memory (u ''alice'') two_sessions) (u ''bob'')
     = Some \<lparr>history = [user_msg (u ''tax?'')], messages = []\<rparr>" by simp
  from C6_reset_memory[of two_sessions "u ''carol''"] c
  have 3: "sessions (reset_memory (u ''carol'') two_sessions) (u ''carol'') = None"
    and 4: "fst (get_memory (u ''carol'') (reset_memory (u ''carol'') two_sessions))
     = \<lparr>history = [], messages = []\<rparr>" by blast+
  from 1 2 3 4 show ?thesis by (intro conjI)
qed

text \<open>
  Claim C9: when the answer cache holds the key \<open>(user_query, pdf_path, session_id)\<close>,
  \<open>run_full_pipeline\<close> returns the cached value and leaves every session's memory
  (and the PDF-index cache) as it was. When the cache does not hold the key and the
  call returns a result, the history of the session has grown by the user message and
  the assistant message with the answer (the user message stands twice when the model
  call raised after it was stored), and the cache holds the key afterwards.
\<close>

theorem C9_cache_hit_keeps_history:
  "(cache_contains (query_cache st) (user_query, pdf_path, session_id) \<longrightarrow>
      (\<exists>v n. map_of (lfu_items (query_cache st)) (user_query, pdf_path, session_id) = Some (v, n)
             \<and> fst (run_full_pipeline env user_query pdf_path session_id st) = Inr v)
      \<and> sessions (snd (run_full_pipeline env user_query pdf_path session_id st)) = sessions st
      \<and> pdf_cache (snd (run_full_pipeline env user_query pdf_path session_id st)) = pdf_cache st)
   \<and> (\<not> cache_contains (query_cache st) (user_query, pdf_path, session_id)
       \<and> run_full_pipeline env user_query pdf_path session_id st = (Inr res, st') \<longrightarrow>
      (session_history st' session_id =
         session_history st session_id @ [user_msg user_query, assistant_msg (answer res)]
       \<or> session_history st' session_id =
         session_history st session_id
         @ [user_msg user_query, user_msg user_query, assistant_msg (answer res)])
      \<and> cache_contains (query_cache st') (user_query, pdf_path, session_id))"
proof (intro conjI impI)
  assume h: "cache_contains (query_cache st) (user_query, pdf_path, session_id)"
  from run_full_pipeline_hit[OF h, of env] obtain v n
    where m: "map_of (lfu_items (query_cache st)) (user_query, pdf_path, session_id) = Some (v, n)"
      and r: "run_full_pipeline env user_query pdf_path session_id st =
               (Inr v, st\<lparr>query_cache := (query_cache st)\<lparr>lfu_items :=
                  bump (user_query, pdf_path, session_id) (lfu_items (query_cache st))\<rparr>\<rparr>)"
    by blast
  from m r show "\<exists>v n. map_of (lfu_items (query_cache st)) (user_query, pdf_path, session_id)
                    = Some (v, n)
             \<and> fst (run_full_pipeline env user_query pdf_path session_id st) = Inr v"
    by simp
  from r show "sessions (snd (run_full_pipeline env user_query pdf_path session_id st)) = sessions st"
    by simp
  from r show "pdf_cache (snd (run_full_pipeline env user_query pdf_path session_id st)) = pdf_cache st"
    by simp
next
  assume a: "\<not> cache_contains (query_cache st) (user_query, pdf_path, session_id)
       \<and> run_full_pipeline env user_query pdf_path session_id st = (Inr res, st')"
  from run_full_pipeline_miss[of st user_query pdf_path session_id env res st'] a
  obtain st1 c where f: "run_full_pipeline_func env user_query pdf_path session_id st = (Inr res, st1)"
    and c: "cache_setitem (query_cache st1) (user_query, pdf_path, session_id) res = Inr c"
    and st': "st' = st1\<lparr>query_cache := c\<rparr>" by blast
  have sh: "session_history st' session_id = session_history st1 session_id"
    using st' by (simp add: session_history_def)
  from run_full_pipeline_func_Inr[OF f] sh
  show "session_history st' session_id =
         session_history st session_id @ [user_msg user_query, assistant_msg (answer res)]
       \<or> session_history st' session_id =
         session_history st session_id
         @ [user_msg user_query, user_msg user_query, assistant_msg (answer res)]"
    by simp
  from cache_setitem_contains[OF c] st'
  show "cache_contains (query_cache st') (user_query, pdf_path, session_id)" by simp
qed

theorem C9_cache_hit_keeps_history_witness:
  "fst (run_full_pipeline sample_env (u ''pdf tax'') (u ''/tmp/tmpab.pdf'') (u ''alice'')
         (snd (run_full_pipeline sample_env (u ''pdf tax'') (u ''/tmp/tmpab.pdf'') (u ''alice'')
                 initial_state)))
     = Inr \<lparr>answer = mock_answer (u ''pdf tax'') (u ''Tax rules for PDF''),
            metadata = [\<lparr>md_content = u ''Tax rules for PDF'', md_pdf_name = u ''tmpab.pdf'',
                         md_page = u ''Page 1'', md_score = 1\<rparr>]\<rparr>
   \<and> session_history
        (snd (run_full_pipeline sample_env (u ''pdf tax'') (u ''/tmp/tmpab.pdf'') (u ''alice'')
           (snd (run_full_pipeline sample_env (u ''pdf tax'') (u ''/tmp/tmpab.pdf'') (u ''alice'')
                   initial_state)))) (u ''alice'')
     = [user_msg (u ''pdf tax''),
        assistant_msg (mock_answer (u ''pdf tax'') (u ''Tax rules for PDF''))]
   \<and> session_history initial_state (u ''alice'') = []"
proof -
  let ?q = "u ''pdf tax''" and ?p = "u ''/tmp/tmpab.pdf''" and ?s = "u ''alice''"
  let ?res = "\<lparr>answer = mock_answer (u ''pdf tax'') (u ''Tax rules for PDF''),
            metadata = [\<lparr>md_content = u ''Tax rules for PDF'', md_pdf_name = u ''tmpab.pdf'',
                         md_page = u ''Page 1'', md_score = 1\<rparr>]\<rparr>"
  let ?st1 = "snd (run_full_pipeline sample_env ?q ?p ?s initial_state)"
  have r1: "run_full_pipeline sample_env ?q ?p ?s initial_state = (Inr ?res, ?st1)"
    by (simp add: first_call del: u_simps)
  have miss: "\<not> cache_contains (query_cache initial_state) (?q, ?p, ?s)"
    by (simp add: cache_contains_def initial_state_def LFUCache_def)
  have h0: "session_history initial_state ?s = []"
    by (simp add: session_history_def initial_state_def)
  have h1: "session_history ?st1 ?s = [user_msg ?q, assistant_msg (answer ?res)]"
    by (simp add: first_call session_history_def del: u_simps)
  have hit: "cache_contains (query_cache ?st1) (?q, ?p, ?s)"
    using C9_cache_hit_keeps_history[of initial_state ?q ?p ?s sample_env ?res ?st1] miss r1
    by blast
  have lookup: "map_of (lfu_items (query_cache ?st1)) (?q, ?p, ?s) = Some (?res, 1)"
    by (simp add: first_call del: u_simps)
  from C9_cache_hit_keeps_history[of ?st1 ?q ?p ?s sample_env] hit
  obtain v n where mv: "map_of (lfu_items (query_cache ?st1)) (?q, ?p, ?s) = Some (v, n)"
    and f: "fst (run_full_pipeline sample_env ?q ?p ?s ?st1) = Inr v"
    and s: "sessions (snd (run_full_pipeline sample_env ?q ?p ?s ?st1)) = sessions ?st1"
    by blast
  from mv[symmetric] lookup have "Some (v, n) = Some (?res, 1)" by (rule trans)
  then have v: "v = ?res" by (simp only: option.inject prod.inject)
  have "session_history (snd (run_full_pipeline sample_env ?q ?p ?s ?st1)) ?s
          = session_history ?st1 ?s"
    using s by (simp add: session_history_def del: u_simps)
  with h1 have 2: "session_history (snd (run_full_pipeline sample_env ?q ?p ?s ?st1)) ?s
          = [user_msg ?q, assistant_msg (mock_answer (u ''pdf tax'') (u ''Tax rules for PDF''))]"
    by (simp del: u_simps)
  from f have 1: "fst (run_full_pipeline sample_env ?q ?p ?s ?st1) = Inr ?res"
    unfolding v .
  from 1 2 h0 show ?thesis by (intro conjI)
qed




text \<open>
  Claim C1, as amended: for a \<open>pdf_id\<close> that is a key of \<open>uploaded_pdfs\<close>, the query
  endpoint returns a fixed mock answer built from the question, the \<open>pdf_id\<close> and the
  session id only, with one mock metadata entry and the session id, and leaves the
  state as it was. The response is the same whatever path the map holds and whatever is
  on the disk, and its answer is never the fallback answer of \<open>run_full_pipeline\<close>:
  the endpoint runs no keyword search and calls no model.
\<close>

theorem C1_query_pdf_returns_fixed_mock:
  "uploaded_pdfs st pdf_id \<noteq> None \<longrightarrow>
     query_pdf pdf_id question session_id st =
       (Inr (JDict
          [(u ''answer'', JStr (strip (query_mock_answer question pdf_id session_id))),
           (u ''metadata'',
            JList [JDict [(u ''content'', JStr (u ''Mock response'')),
                          (u ''pdf_name'', JStr pdf_id),
                          (u ''page'', JStr (u ''N/A''))]]),
           (u ''session_id'', JStr session_id)]), st)
     \<and> (\<forall>st2. uploaded_pdfs st2 pdf_id \<noteq> None \<longrightarrow>
           fst (query_pdf pdf_id question session_id st2)
             = fst (query_pdf pdf_id question session_id st))
     \<and> (\<forall>ctx. strip (query_mock_answer question pdf_id session_id)
             \<noteq> mock_answer question ctx)"
  using endpoint_answer_is_not_pipeline_answer[of question pdf_id session_id question]
  by (auto simp: query_pdf_def simp del: u_simps)

theorem C1_query_pdf_returns_fixed_mock_witness:
  "query_pdf (u ''tmpab.pdf'') (u ''pdf tax'') (u ''alice'') st_one =
       (Inr (JDict
          [(u ''answer'',
            JStr (strip (query_mock_answer (u ''pdf tax'') (u ''tmpab.pdf'') (u ''alice'')))),
           (u ''metadata'',
            JList [JDict [(u ''content'', JStr (u ''Mock response'')),
                          (u ''pdf_name'', JStr (u ''tmpab.pdf'')),
                          (u ''page'', JStr (u ''N/A''))]]),
           (u ''session_id'', JStr (u ''alice''))]), st_one)
   \<and> fst (query_pdf (u ''tmpab.pdf'') (u ''pdf tax'') (u ''alice'') (st_one\<lparr>disk := Map.empty\<rparr>))
       = fst (query_pdf (u ''tmpab.pdf'') (u ''pdf tax'') (u ''alice'') st_one)"
proof -
  have h: "uploaded_pdfs st_one (u ''tmpab.pdf'') \<noteq> None"
    and h2: "uploaded_pdfs (st_one\<lparr>disk := Map.empty\<rparr>) (u ''tmpab.pdf'') \<noteq> None"
    by (simp_all add: st_one_def)
  note t = C1_query_pdf_returns_fixed_mock[of st_one "u ''tmpab.pdf''" "u ''pdf tax''" "u ''alice''"]
  from t h have 1: "query_pdf (u ''tmpab.pdf'') (u ''pdf tax'') (u ''alice'') st_one =
       (Inr (JDict
          [(u ''answer'',
            JStr (strip (query_mock_answer (u ''pdf tax'') (u ''tmpab.pdf'') (u ''alice'')))),
           (u ''metadata'',
            JList [JDict [(u ''content'', JStr (u ''Mock response'')),
                          (u ''pdf_name'', JStr (u ''tmpab.pdf'')),
                          (u ''page'', JStr (u ''N/A''))]]),
           (u ''session_id'', JStr (u ''alice''))]), st_one)" by blast
  from t h h2 have 2:
    "fst (query_pdf (u ''tmpab.pdf'') (u ''pdf tax'') (u ''alice'') (st_one\<lparr>disk := Map.empty\<rparr>))
       = fst (query_pdf (u ''tmpab.pdf'') (u ''pdf tax'') (u ''alice'') st_one)" by blast
  from 1 2 show ?thesis by (intro conjI)
qed

text \<open>
  Claim C1 as stated fails: for an uploaded PDF whose first page matches the query and
  no API key, the pipeline answers with its fallback over the retrieved page, and the
  endpoint answers with its own mock text and mock metadata, also after the file is
  gone from the disk.
\<close>

theorem C1_counterexample:
  "uploaded_pdfs st_one (u ''tmpab.pdf'') = Some (u ''/tmp/tmpab.pdf'')
   \<and> groq_api_key sample_env = None
   \<and> fst (run_full_pipeline sample_env (u ''pdf tax'') (u ''/tmp/tmpab.pdf'') (u ''alice'')
            initial_state)
       = Inr \<lparr>answer = mock_answer (u ''pdf tax'') (u ''Tax rules for PDF''),
              metadata = [\<lparr>md_content = u ''Tax rules for PDF'', md_pdf_name = u ''tmpab.pdf'',
                           md_page = u ''Page 1'', md_score = 1\<rparr>]\<rparr>
   \<and> fst (query_pdf (u ''tmpab.pdf'') (u ''pdf tax'') (u ''alice'') st_one)
       = Inr (JDict
          [(u ''answer'',
            JStr (strip (query_mock_answer (u ''pdf tax'') (u ''tmpab.pdf'') (u ''alice'')))),
           (u ''metadata'',
            JList [JDict [(u ''content'', JStr (u ''Mock response'')),
                          (u ''pdf_name'', JStr (u ''tmpab.pdf'')),
                          (u ''page'', JStr (u ''N/A''))]]),
           (u ''session_id'', JStr (u ''alice''))])
   \<and> strip (query_mock_answer (u ''pdf tax'') (u ''tmpab.pdf'') (u ''alice''))
       \<noteq> mock_answer (u ''pdf tax'') (u ''Tax rules for PDF'')
   \<and> fst (query_pdf (u ''tmpab.pdf'') (u ''pdf tax'') (u ''alice'') (st_one\<lparr>disk := Map.empty\<rparr>))
       = fst (query_pdf (u ''tmpab.pdf'') (u ''pdf tax'') (u ''alice'') st_one)"
proof -
  have 1: "uploaded_pdfs st_one (u ''tmpab.pdf'') = Some (u ''/tmp/tmpab.pdf'')"
    by (simp add: st_one_def)
  have 2: "groq_api_key sample_env = None"
    by (simp add: sample_env_def)
  have 3: "fst (run_full_pipeline sample_env (u ''pdf tax'') (u ''/tmp/tmpab.pdf'') (u ''alice'')
            initial_state)
       = Inr \<lparr>answer = mock_answer (u ''pdf tax'') (u ''Tax rules for PDF''),
              metadata = [\<lparr>md_content = u ''Tax rules for PDF'', md_pdf_name = u ''tmpab.pdf'',
                           md_page = u ''Page 1'', md_score = 1\<rparr>]\<rparr>"
    by (simp add: first_call del: u_simps)
  have 4: "fst (query_pdf (u ''tmpab.pdf'') (u ''pdf tax'') (u ''alice'') st_one)
       = Inr (JDict
          [(u ''answer'',
            JStr (strip (query_mock_answer (u ''pdf tax'') (u ''tmpab.pdf'') (u ''alice'')))),
           (u ''metadata'',
            JList [JDict [(u ''content'', JStr (u ''Mock response'')),
                          (u ''pdf_name'', JStr (u ''tmpab.pdf'')),
                          (u ''page'', JStr (u ''N/A''))]]),
           (u ''session_id'', JStr (u ''alice''))])"
    using 1 by (simp add: query_pdf_def del: u_simps)
  have 5: "strip (query_mock_answer (u ''pdf tax'') (u ''tmpab.pdf'') (u ''alice''))
       \<noteq> mock_answer (u ''pdf tax'') (u ''Tax rules for PDF'')"
    by (rule endpoint_answer_is_not_pipeline_answer)
  have 6: "fst (query_pdf (u ''tmpab.pdf'') (u ''pdf tax'') (u ''alice'') (st_one\<lparr>disk := Map.empty\<rparr>))
       = fst (query_pdf (u ''tmpab.pdf'') (u ''pdf tax'') (u ''alice'') st_one)"
    by (simp add: query_pdf_def st_one_def del: u_simps)
  from 1 2 3 4 5 6 show ?thesis by (intro conjI)
qed

end
